(* ===== verification/Core_Types.thy ===== *)
theory Core_Types
  imports Prelude
begin

text \<open>
  The vocabulary of the engine (\<open>crates/oxidelake-core/src\<close>): backend kinds and device
  identifiers (\<open>hardware.rs\<close>), buffer layouts (\<open>layout.rs\<close>), operator parameters
  (\<open>params.rs\<close>) and the error type (\<open>error.rs\<close>).

  Arrow's \<open>DataType\<close> and \<open>Field\<close> are data the sources match on: the constructors are the ones
  the sources name, every other type is \<open>OtherType\<close> with its name.  Field metadata is not kept.
  A formatted message is the list of its pieces, rendered neither for Arrow types nor for numbers.
\<close>

type_synonym i64 = "64 word"
type_synonym u64 = "64 word"
type_synonym f64 = "64 word"
type_synonym f32 = "32 word"

section \<open>Arrow types\<close>

datatype data_type = Int32 | Int64 | Float32 | Float64 | Boolean | Utf8 | LargeUtf8 | Utf8View
  | FixedSizeList field int | ListOf field | LargeListOf field | OtherType string
  and field = Field (field_name: string) (field_type: data_type) (field_nullable: bool)

datatype piece = Txt string | Num nat | Ty data_type

type_synonym message = "piece list"

section \<open>Backends and devices\<close>

datatype backend_kind = CpuSimd | Cuda | Metal

definition ALL_backends :: "backend_kind list" where
  "ALL_backends = [Cuda, Metal, CpuSimd]"

fun as_str :: "backend_kind \<Rightarrow> string" where
  "as_str CpuSimd = ''cpu''"
| "as_str Cuda = ''cuda''"
| "as_str Metal = ''metal''"

fun is_gpu :: "backend_kind \<Rightarrow> bool" where
  "is_gpu CpuSimd = False"
| "is_gpu _ = True"

record device_id =
  backend :: backend_kind
  ordinal :: nat

definition CPU_device :: device_id where
  "CPU_device = \<lparr>backend = CpuSimd, ordinal = 0\<rparr>"

definition display_device :: "device_id \<Rightarrow> string" where
  "display_device d = as_str (backend d) @ '':'' @ show_nat (ordinal d)"

section \<open>Errors\<close>

text \<open>
  \<open>std::io::Error\<close> is its kind and text.  The third-party errors keep the variants the sources
  inspect; the others carry their rendered text.  A boxed error is one of the engine's own or a
  foreign one.
\<close>

datatype io_kind = NotFound | BrokenPipe | Interrupted | NotConnected | UnexpectedEof | WriteZero
  | OtherKind

datatype io_error = IoError io_kind message

datatype arrow_error = ArrowIo string io_error | ArrowOther string

datatype store_error = StoreNotFound string string | StoreNotModified string
  | StorePrecondition string | StoreOther string

datatype engine_error =
    Io io_error
  | Allocation nat nat message
  | Device backend_kind message
  | Execution message
  | Plan message
  | Format message
  | Unsupported string message
  | Arrow arrow_error
  | DataFusion df_error
  and df_error =
    ParquetError string
  | ArrowErr arrow_error "string option"
  | DfIo io_error
  | ObjectStore store_error
  | Context string df_error
  | External boxed_error
  | DfPlan message
  | DfExecution message
  | DfInternal message
  | Shared df_error
  | DfOther string
  and boxed_error = BoxEngine engine_error | BoxForeign string

fun is_unsupported :: "engine_error \<Rightarrow> bool" where
  "is_unsupported (Unsupported feature detail) = True"
| "is_unsupported _ = False"

fun to_datafusion :: "engine_error \<Rightarrow> df_error" where
  "to_datafusion (DataFusion inner) = inner"
| "to_datafusion other = External (BoxEngine other)"

text \<open>What stops a computation: an error value, or a panic (an index out of bounds).\<close>

datatype fault = Err engine_error | Panic string

type_synonym 'a result = "fault + 'a"

abbreviation fail :: "engine_error \<Rightarrow> 'a result" where
  "fail e \<equiv> Inl (Err e)"

abbreviation lift_arrow :: "arrow_error + 'a \<Rightarrow> 'a result" where
  "lift_arrow r \<equiv> map_err (\<lambda>e. Err (Arrow e)) r"

fun unsupported_fault :: "fault \<Rightarrow> bool" where
  "unsupported_fault (Err e) = is_unsupported e"
| "unsupported_fault (Panic m) = False"

definition from_str_backend :: "string \<Rightarrow> engine_error + backend_kind" where
  "from_str_backend s = (let t = to_ascii_lowercase (trim s) in
     if t = ''cpu'' \<or> t = ''cpusimd'' \<or> t = ''cpu-simd'' \<or> t = ''cpu_simd'' then Inr CpuSimd
     else if t = ''cuda'' then Inr Cuda
     else if t = ''metal'' then Inr Metal
     else Inl (Plan [Txt ''unknown backend '', Txt [CHR 0x27], Txt t, Txt [CHR 0x27],
                     Txt ''; expected one of cpu, cuda, metal'']))"

section \<open>Buffer layouts\<close>

definition HOST_ALIGN :: nat where "HOST_ALIGN = 64"
definition DEVICE_ALIGN :: nat where "DEVICE_ALIGN = 128"

record buffer_layout =
  bl_len :: nat
  bl_align :: nat

definition is_power_of_two :: "nat \<Rightarrow> bool" where
  "is_power_of_two n = (n \<in> set (map (\<lambda>k. 2 ^ k) [0..<64]))"

definition layout_new :: "nat \<Rightarrow> nat \<Rightarrow> engine_error + buffer_layout" where
  "layout_new len align =
    (if align = 0 \<or> \<not> is_power_of_two align
     then Inl (Allocation len align [Txt ''alignment must be a non-zero power of two''])
     else Inr \<lparr>bl_len = len, bl_align = align\<rparr>)"

definition layout_host :: "nat \<Rightarrow> buffer_layout" where
  "layout_host len = \<lparr>bl_len = len, bl_align = HOST_ALIGN\<rparr>"

definition layout_device :: "nat \<Rightarrow> buffer_layout" where
  "layout_device len = \<lparr>bl_len = len, bl_align = DEVICE_ALIGN\<rparr>"

definition layout_is_empty :: "buffer_layout \<Rightarrow> bool" where
  "layout_is_empty l = (bl_len l = 0)"

definition padded_len :: "buffer_layout \<Rightarrow> nat" where
  "padded_len l = (let rem = bl_len l mod bl_align l in
     if rem = 0 then bl_len l else u64_add (bl_len l) (bl_align l - rem))"

definition is_aligned :: "buffer_layout \<Rightarrow> nat \<Rightarrow> bool" where
  "is_aligned l addr = (addr mod bl_align l = 0)"

section \<open>Operator parameters\<close>

datatype comparison = Eq | Lt | LtEq | Gt | GtEq

fun symbol :: "comparison \<Rightarrow> string" where
  "symbol Eq = ''=''"
| "symbol Lt = ''<''"
| "symbol LtEq = ''<=''"
| "symbol Gt = ''>''"
| "symbol GtEq = ''>=''"

datatype literal = LInt64 i64 | LFloat64 f64

fun literal_data_type :: "literal \<Rightarrow> data_type" where
  "literal_data_type (LInt64 v) = Int64"
| "literal_data_type (LFloat64 v) = Float64"

datatype predicate = Compare nat comparison literal | And predicate predicate

fun collect_columns :: "predicate \<Rightarrow> nat list \<Rightarrow> nat list" where
  "collect_columns (Compare column op lit) out = out @ [column]"
| "collect_columns (And l r) out = collect_columns r (collect_columns l out)"

definition pred_columns :: "predicate \<Rightarrow> nat list" where
  "pred_columns p = collect_columns p []"

fun leaf_count :: "predicate \<Rightarrow> nat" where
  "leaf_count (Compare column op lit) = 1"
| "leaf_count (And l r) = leaf_count l + leaf_count r"

datatype aggregate_function = AggSum | AggCount | AggMin | AggMax

fun agg_name :: "aggregate_function \<Rightarrow> string" where
  "agg_name AggSum = ''SUM''"
| "agg_name AggCount = ''COUNT''"
| "agg_name AggMin = ''MIN''"
| "agg_name AggMax = ''MAX''"

record aggregate_spec =
  group_by :: nat
  aggregates :: "(aggregate_function \<times> nat) list"

datatype distance_metric = L2 | Cosine

fun metric_name :: "distance_metric \<Rightarrow> string" where
  "metric_name L2 = ''l2''"
| "metric_name Cosine = ''cosine''"

definition gpu_eligible_scalar :: "data_type \<Rightarrow> bool" where
  "gpu_eligible_scalar dt = (dt = Int64 \<or> dt = Float64)"

fun vector_dimension :: "data_type \<Rightarrow> nat option" where
  "vector_dimension (FixedSizeList f n) =
     (if field_type f = Float32 \<and> n > 0 then Some (nat n) else None)"
| "vector_dimension _ = None"

section \<open>Lemmas\<close>

lemma as_str_inj [simp]: "as_str a = as_str b \<longleftrightarrow> a = b"
  by (cases a; cases b) simp_all

lemma to_datafusion_not_DataFusion:
  "(\<forall>d. e \<noteq> DataFusion d) \<Longrightarrow> to_datafusion e = External (BoxEngine e)"
  by (cases e) auto

lemma collect_columns_append: "collect_columns p out = out @ collect_columns p []"
proof (induction p arbitrary: out)
  case (And l r)
  show ?case by (metis And.IH append_assoc collect_columns.simps(2))
qed simp

lemma pred_columns_simps [simp]:
  "pred_columns (Compare column op lit) = [column]"
  "pred_columns (And l r) = pred_columns l @ pred_columns r"
  by (simp_all add: pred_columns_def) (metis collect_columns_append)

lemma leaf_count_columns: "leaf_count p = length (pred_columns p)"
  by (induction p) simp_all

lemma power_of_two_pos: "is_power_of_two n \<Longrightarrow> 0 < n"
  by (auto simp: is_power_of_two_def)

lemma layout_new_align: "layout_new len align = Inr l \<Longrightarrow> bl_len l = len \<and> bl_align l = align \<and> 0 < align"
  by (auto simp: layout_new_def split: if_splits)

lemma padded_len_exact:
  assumes "0 < bl_align l" and "bl_len l + bl_align l \<le> 2 ^ 64"
  shows "padded_len l = (bl_len l + bl_align l - 1) div bl_align l * bl_align l"
proof -
  define n a where "n = bl_len l" and "a = bl_align l"
  have a: "0 < a" using assms(1) by (simp add: a_def)
  show ?thesis
  proof (cases "n mod a = 0")
    case True
    then obtain q where q: "n = q * a" by (auto simp: mod_eq_0_iff_dvd dvd_def mult.commute)
    have "(q * a + a - 1) div a = q" using a by (intro div_nat_eqI) (simp_all add: mult.commute)
    then show ?thesis using True q by (simp add: padded_len_def n_def [symmetric] a_def [symmetric])
  next
    case False
    define q r where "q = n div a" and "r = n mod a"
    have n: "n = q * a + r" and r: "0 < r" "r < a" using False a by (simp_all add: q_def r_def)
    have "n + a - 1 = (q + 1) * a + (r - 1)" using n r by simp
    then have "(n + a - 1) div a = q + 1"
      using r a by (intro div_nat_eqI) (simp_all add: mult.commute)
    moreover have "u64_add n (a - r) = n + (a - r)"
      using assms(2) r by (intro u64_add_exact) (simp add: u64_max_def n_def a_def)
    ultimately show ?thesis using False n r
      by (simp add: padded_len_def n_def [symmetric] a_def [symmetric] r_def [symmetric])
  qed
qed

lemma vector_dimension_Some:
  "vector_dimension dt = Some d \<longleftrightarrow>
     (\<exists>f n. dt = FixedSizeList f n \<and> field_type f = Float32 \<and> n > 0 \<and> d = nat n)"
  by (cases dt) auto

end
