(* ===== verification/Ieee_Floats.thy ===== *)
theory Ieee_Floats
  imports Core_Types
begin

unbundle bit_operations_syntax

text \<open>
  The binary floating-point arithmetic of the language, computed on bit patterns: the operations of
  \<open>f32\<close> and \<open>f64\<close> that the kernels use, rounding to nearest with ties to even.  An operation that
  produces a NaN produces the positive quiet NaN, the pattern of the constant \<open>f32::NAN\<close>.

  \<open>total_key\<close> is the key by which \<open>f64::total_cmp\<close> orders.  The lemmas show that swapping the
  arguments of a subtraction only negates it, and that products commute, which is what makes the
  vector distances symmetric.
\<close>

section \<open>Formats and values\<close>

text \<open>\<open>Fin s m e\<close> is \<open>(-1)^s * m * 2^e\<close>.\<close>

datatype fval = NaN | Infty bool | Fin bool nat int

record fformat =
  frac_bits :: nat
  exp_bits :: nat

definition binary32 :: fformat where "binary32 = \<lparr>frac_bits = 23, exp_bits = 8\<rparr>"
definition binary64 :: fformat where "binary64 = \<lparr>frac_bits = 52, exp_bits = 11\<rparr>"

definition bias :: "fformat \<Rightarrow> int" where "bias F = 2 ^ (exp_bits F - 1) - 1"

text \<open>The exponent of the last place of subnormal numbers.\<close>

definition qmin :: "fformat \<Rightarrow> int" where "qmin F = 1 - bias F - int (frac_bits F)"

definition sign_weight :: "fformat \<Rightarrow> nat" where "sign_weight F = 2 ^ (frac_bits F + exp_bits F)"

definition inf_bits :: "fformat \<Rightarrow> nat" where
  "inf_bits F = (2 ^ exp_bits F - 1) * 2 ^ frac_bits F"

definition nan_bits :: "fformat \<Rightarrow> nat" where
  "nan_bits F = inf_bits F + 2 ^ (frac_bits F - 1)"

definition decode :: "fformat \<Rightarrow> nat \<Rightarrow> fval" where
  "decode F w = (let s = (w div sign_weight F = 1);
                     e = w div 2 ^ frac_bits F mod 2 ^ exp_bits F;
                     f = w mod 2 ^ frac_bits F in
     if e = 2 ^ exp_bits F - 1 then (if f = 0 then Infty s else NaN)
     else if e = 0 then Fin s f (qmin F)
     else Fin s (f + 2 ^ frac_bits F) (qmin F + int e - 1))"

section \<open>Rounding\<close>

fun bit_length :: "nat \<Rightarrow> nat" where
  "bit_length n = (if n = 0 then 0 else Suc (bit_length (n div 2)))"

declare bit_length.simps [simp del]

text \<open>
  The magnitude bits of \<open>m * 2^e\<close>, plus something below one unit of \<open>m\<close> when \<open>sticky\<close>.  The
  pattern of the next magnitude is the successor of a pattern, so a carry needs no case.
\<close>

definition round_bits :: "fformat \<Rightarrow> nat \<Rightarrow> int \<Rightarrow> bool \<Rightarrow> nat" where
  "round_bits F m e sticky =
    (let q = max (e + int (bit_length m) - int (frac_bits F) - 1) (qmin F);
         k = q - e;
         r = (if k \<le> 0 then m * 2 ^ nat (- k)
              else let d = 2 ^ nat k; h = 2 ^ (nat k - 1); t = m div d; u = m mod d in
                   if u > h \<or> u = h \<and> (sticky \<or> odd t) then t + 1 else t);
         w = nat (q - qmin F) * 2 ^ frac_bits F + r in
     if w \<ge> inf_bits F then inf_bits F else w)"

definition encode_round :: "fformat \<Rightarrow> bool \<Rightarrow> nat \<Rightarrow> int \<Rightarrow> bool \<Rightarrow> nat" where
  "encode_round F s m e sticky =
     (if s then sign_weight F else 0) + (if m = 0 then 0 else round_bits F m e sticky)"

definition encode_inf :: "fformat \<Rightarrow> bool \<Rightarrow> nat" where
  "encode_inf F s = (if s then sign_weight F else 0) + inf_bits F"

section \<open>Operations\<close>

definition fneg :: "fval \<Rightarrow> fval" where
  "fneg x = (case x of NaN \<Rightarrow> NaN | Infty s \<Rightarrow> Infty (\<not> s) | Fin s m e \<Rightarrow> Fin (\<not> s) m e)"

definition signed_mag :: "bool \<Rightarrow> nat \<Rightarrow> int" where
  "signed_mag s m = (if s then - int m else int m)"

definition fadd :: "fformat \<Rightarrow> fval \<Rightarrow> fval \<Rightarrow> nat" where
  "fadd F x y = (case (x, y) of
      (NaN, _) \<Rightarrow> nan_bits F
    | (_, NaN) \<Rightarrow> nan_bits F
    | (Infty s, Infty t) \<Rightarrow> if s = t then encode_inf F s else nan_bits F
    | (Infty s, Fin _ _ _) \<Rightarrow> encode_inf F s
    | (Fin _ _ _, Infty t) \<Rightarrow> encode_inf F t
    | (Fin s m e, Fin t n d) \<Rightarrow>
        let k = min e d;
            v = signed_mag s m * 2 ^ nat (e - k) + signed_mag t n * 2 ^ nat (d - k) in
        encode_round F (if v = 0 then s \<and> t else v < 0) (nat \<bar>v\<bar>) k False)"

definition fmul :: "fformat \<Rightarrow> fval \<Rightarrow> fval \<Rightarrow> nat" where
  "fmul F x y = (case (x, y) of
      (NaN, _) \<Rightarrow> nan_bits F
    | (_, NaN) \<Rightarrow> nan_bits F
    | (Infty s, Infty t) \<Rightarrow> encode_inf F (s \<noteq> t)
    | (Infty s, Fin t n _) \<Rightarrow> if n = 0 then nan_bits F else encode_inf F (s \<noteq> t)
    | (Fin s m _, Infty t) \<Rightarrow> if m = 0 then nan_bits F else encode_inf F (s \<noteq> t)
    | (Fin s m e, Fin t n d) \<Rightarrow> encode_round F (s \<noteq> t) (m * n) (e + d) False)"

text \<open>The quotient is computed to two bits more than the precision, with the rest as sticky bit.\<close>

definition fdiv :: "fformat \<Rightarrow> fval \<Rightarrow> fval \<Rightarrow> nat" where
  "fdiv F x y = (case (x, y) of
      (NaN, _) \<Rightarrow> nan_bits F
    | (_, NaN) \<Rightarrow> nan_bits F
    | (Infty s, Infty t) \<Rightarrow> nan_bits F
    | (Infty s, Fin t _ _) \<Rightarrow> encode_inf F (s \<noteq> t)
    | (Fin s _ _, Infty t) \<Rightarrow> encode_round F (s \<noteq> t) 0 0 False
    | (Fin s m e, Fin t n d) \<Rightarrow>
        if n = 0 then (if m = 0 then nan_bits F else encode_inf F (s \<noteq> t))
        else let k = frac_bits F + 3 + bit_length n; a = m * 2 ^ k in
             encode_round F (s \<noteq> t) (a div n) (e - d - int k) (a mod n \<noteq> 0))"

fun isqrt :: "nat \<Rightarrow> nat" where
  "isqrt n = (if n = 0 then 0
     else let r = 2 * isqrt (n div 4) in if (r + 1) * (r + 1) \<le> n then r + 1 else r)"

declare isqrt.simps [simp del]

definition fsqrt :: "fformat \<Rightarrow> fval \<Rightarrow> nat" where
  "fsqrt F x = (case x of
      NaN \<Rightarrow> nan_bits F
    | Infty s \<Rightarrow> if s then nan_bits F else encode_inf F False
    | Fin s m e \<Rightarrow>
        if m = 0 then encode_round F s 0 0 False
        else if s then nan_bits F
        else let k = 2 * (frac_bits F + 3) + (if odd e then 1 else 0); a = m * 2 ^ k; r = isqrt a in
             encode_round F False r ((e - int k) div 2) (r * r \<noteq> a))"

definition flt :: "fval \<Rightarrow> fval \<Rightarrow> bool" where
  "flt x y = (case (x, y) of
      (NaN, _) \<Rightarrow> False
    | (_, NaN) \<Rightarrow> False
    | (Infty s, Infty t) \<Rightarrow> s \<and> \<not> t
    | (Infty s, Fin _ _ _) \<Rightarrow> s
    | (Fin _ _ _, Infty t) \<Rightarrow> \<not> t
    | (Fin s m e, Fin t n d) \<Rightarrow> let k = min e d in
        signed_mag s m * 2 ^ nat (e - k) < signed_mag t n * 2 ^ nat (d - k))"

definition is_zero_val :: "fval \<Rightarrow> bool" where
  "is_zero_val x = (case x of Fin _ m _ \<Rightarrow> m = 0 | _ \<Rightarrow> False)"

section \<open>The types \<open>f32\<close> and \<open>f64\<close>\<close>

definition val32 :: "f32 \<Rightarrow> fval" where "val32 w = decode binary32 (unat w)"
definition val64 :: "f64 \<Rightarrow> fval" where "val64 w = decode binary64 (unat w)"

definition f32_add :: "f32 \<Rightarrow> f32 \<Rightarrow> f32" where
  "f32_add a b = of_nat (fadd binary32 (val32 a) (val32 b))"
definition f32_sub :: "f32 \<Rightarrow> f32 \<Rightarrow> f32" where
  "f32_sub a b = of_nat (fadd binary32 (val32 a) (fneg (val32 b)))"
definition f32_mul :: "f32 \<Rightarrow> f32 \<Rightarrow> f32" where
  "f32_mul a b = of_nat (fmul binary32 (val32 a) (val32 b))"
definition f32_div :: "f32 \<Rightarrow> f32 \<Rightarrow> f32" where
  "f32_div a b = of_nat (fdiv binary32 (val32 a) (val32 b))"
definition f32_sqrt :: "f32 \<Rightarrow> f32" where
  "f32_sqrt a = of_nat (fsqrt binary32 (val32 a))"
definition f32_is_zero :: "f32 \<Rightarrow> bool" where
  "f32_is_zero a = is_zero_val (val32 a)"

definition f32_nan :: f32 where "f32_nan = 0x7FC00000"
definition f32_one :: f32 where "f32_one = 0x3F800000"
definition f32_neg_zero :: f32 where "f32_neg_zero = 0x80000000"

text \<open>The \<open>Sum\<close> of an iterator of floats starts at negative zero.\<close>

definition f32_sum :: "f32 list \<Rightarrow> f32" where
  "f32_sum xs = foldl f32_add f32_neg_zero xs"

definition f64_add :: "f64 \<Rightarrow> f64 \<Rightarrow> f64" where
  "f64_add a b = of_nat (fadd binary64 (val64 a) (val64 b))"
definition f64_is_nan :: "f64 \<Rightarrow> bool" where
  "f64_is_nan a = (val64 a = NaN)"

text \<open>\<open>f64::min\<close> and \<open>f64::max\<close>: a NaN operand loses.\<close>

definition f64_min :: "f64 \<Rightarrow> f64 \<Rightarrow> f64" where
  "f64_min a b = (if f64_is_nan a then b else if f64_is_nan b then a
                  else if flt (val64 b) (val64 a) then b else a)"
definition f64_max :: "f64 \<Rightarrow> f64 \<Rightarrow> f64" where
  "f64_max a b = (if f64_is_nan a then b else if f64_is_nan b then a
                  else if flt (val64 a) (val64 b) then b else a)"

definition f64_zero :: f64 where "f64_zero = 0"
definition f64_infinity :: f64 where "f64_infinity = 0x7FF0000000000000"
definition f64_neg_infinity :: f64 where "f64_neg_infinity = 0xFFF0000000000000"

text \<open>The signed integer by which \<open>f64::total_cmp\<close> compares.\<close>

definition total_key :: "f64 \<Rightarrow> int" where
  "total_key w = (if bit w 63 then sint (w XOR 0x7FFFFFFFFFFFFFFF) else sint w)"

section \<open>Symmetry\<close>

text \<open>Two patterns that differ at most in the sign.\<close>

fun same_magnitude :: "fval \<Rightarrow> fval \<Rightarrow> bool" where
  "same_magnitude NaN NaN = True"
| "same_magnitude (Infty s) (Infty t) = True"
| "same_magnitude (Fin s m e) (Fin t n d) = (m = n \<and> e = d)"
| "same_magnitude _ _ = False"

lemma fmul_commute: "fmul F x y = fmul F y x"
  by (cases x; cases y) (auto simp: fmul_def mult.commute add.commute intro!: arg_cong2 [where f = encode_inf]
      arg_cong [where f = "\<lambda>b. encode_round F b _ _ _"])

lemma fadd_commute: "fadd F x y = fadd F y x"
  by (cases x; cases y) (auto simp: fadd_def Let_def min.commute add.commute conj_commute)

lemma fmul_self_magnitude: "same_magnitude x y \<Longrightarrow> fmul F x x = fmul F y y"
  by (cases x; cases y) (auto simp: fmul_def)

lemma inf_bits_less: "inf_bits F < sign_weight F"
proof -
  have "(2 ^ exp_bits F - 1) * 2 ^ frac_bits F < (2 :: nat) ^ exp_bits F * 2 ^ frac_bits F"
    by (intro mult_strict_right_mono) auto
  then show ?thesis by (simp add: inf_bits_def sign_weight_def power_add mult.commute)
qed

lemma round_bits_le: "round_bits F m e st \<le> inf_bits F"
  by (simp add: round_bits_def Let_def)

lemma encode_round_less: "encode_round F s m e st < 2 * sign_weight F"
  using round_bits_le [of F m e st] inf_bits_less [of F] by (auto simp: encode_round_def)

text \<open>The sign bit is outside the fields that give the magnitude.\<close>

lemma decode_sign_weight: "same_magnitude (decode F (sign_weight F + w)) (decode F w)"
proof -
  let ?f = "frac_bits F" and ?e = "exp_bits F"
  have sw: "sign_weight F = 2 ^ ?f * 2 ^ ?e" by (simp add: sign_weight_def power_add)
  have "(sign_weight F + w) div 2 ^ ?f mod 2 ^ ?e = w div 2 ^ ?f mod 2 ^ ?e"
    by (simp add: sw)
  moreover have "(sign_weight F + w) mod 2 ^ ?f = w mod 2 ^ ?f"
    by (simp add: sw)
  ultimately show ?thesis by (simp add: decode_def Let_def)
qed

lemma same_magnitude_refl [simp]: "same_magnitude x x"
  by (cases x) simp_all

lemma same_magnitude_sym: "same_magnitude x y \<Longrightarrow> same_magnitude y x"
  by (cases x; cases y) simp_all

lemma decode_encode_round:
  "same_magnitude (decode F (encode_round F s m e st)) (decode F (encode_round F t m e st))"
  using decode_sign_weight [of F] same_magnitude_sym [OF decode_sign_weight [of F]]
    decode_sign_weight [of F 0] same_magnitude_sym [OF decode_sign_weight [of F 0]]
  by (auto simp: encode_round_def)

lemma decode_encode_inf:
  "same_magnitude (decode F (encode_inf F s)) (decode F (encode_inf F t))"
  using decode_sign_weight [of F] same_magnitude_sym [OF decode_sign_weight [of F]]
  by (auto simp: encode_inf_def)

lemma signed_mag_not [simp]: "signed_mag (\<not> s) m = - signed_mag s m"
  by (simp add: signed_mag_def)

text \<open>Swapping the operands of a subtraction changes the sign of the result at most.\<close>

lemma fsub_swap:
  "same_magnitude (decode F (fadd F x (fneg y))) (decode F (fadd F y (fneg x)))"
proof (cases "\<exists>s m e t n d. x = Fin s m e \<and> y = Fin t n d")
  case True
  then obtain s m e t n d where xy: "x = Fin s m e" "y = Fin t n d" by blast
  define k where "k = min e d"
  define v where "v = signed_mag s m * 2 ^ nat (e - k) - signed_mag t n * 2 ^ nat (d - k)"
  have "fadd F x (fneg y) = encode_round F (if v = 0 then s \<and> \<not> t else v < 0) (nat \<bar>v\<bar>) k False"
    by (simp add: fadd_def fneg_def xy Let_def k_def [symmetric] v_def)
  moreover have "fadd F y (fneg x)
      = encode_round F (if v = 0 then t \<and> \<not> s else - v < 0) (nat \<bar>v\<bar>) k False"
    by (simp add: fadd_def fneg_def xy Let_def k_def v_def min.commute abs_minus_commute)
  ultimately show ?thesis by (simp only: decode_encode_round)
next
  case False
  then show ?thesis
    by (cases x; cases y) (auto simp: fadd_def fneg_def decode_encode_inf)
qed

lemma fadd_less: "fadd binary32 x y < 2 ^ 32"
  using inf_bits_less [of binary32]
  by (cases x; cases y)
    (auto simp: fadd_def Let_def nan_bits_def inf_bits_def encode_inf_def sign_weight_def binary32_def
      intro!: order.strict_trans2 [OF encode_round_less])

lemma val32_of_nat: "n < 2 ^ 32 \<Longrightarrow> val32 (of_nat n) = decode binary32 n"
  by (simp add: val32_def unat_of_nat take_bit_nat_eq_self)

lemma f32_sub_square_swap:
  "f32_mul (f32_sub a b) (f32_sub a b) = f32_mul (f32_sub b a) (f32_sub b a)"
  unfolding f32_mul_def f32_sub_def
  by (simp only: val32_of_nat [OF fadd_less] fmul_self_magnitude [OF fsub_swap])

lemma f32_mul_commute: "f32_mul a b = f32_mul b a"
  by (simp add: f32_mul_def fmul_commute)

end
