(* ===== verification/Arrow_Data.thy ===== *)
theory Arrow_Data
  imports Ieee_Floats
begin

text \<open>
  Arrow data as the sources see it, and the Arrow compute kernels the sources call.

  A cell is a value of one row, a column (\<open>ArrayRef\<close>) is its type and its optional cells, a record
  batch is its fields, its columns and its row count.  An element of a fixed-size list keeps its
  validity beside the raw value, since the distance kernel reads the raw buffer.

  The compute kernels are third-party code: \<open>arrow_ops\<close> is the record of the functions called, an
  argument of every definition that calls one, and the locale \<open>arrow_compute\<close> states what their
  documentation promises.  \<open>arrow_ref\<close> computes exactly that and interprets the locale.
\<close>

section \<open>Columns and batches\<close>

datatype cell = CInt i64 | CFloat f64 | CSingle f32 | CText string | CBool bool
  | CVec "(bool \<times> f32) list" | COther string

record array =
  arr_type :: data_type
  cells :: "cell option list"

record batch =
  schema :: "field list"
  columns :: "array list"
  num_rows :: nat

fun cell_ok :: "data_type \<Rightarrow> cell \<Rightarrow> bool" where
  "cell_ok Int64 c = (case c of CInt v \<Rightarrow> True | _ \<Rightarrow> False)"
| "cell_ok Float64 c = (case c of CFloat v \<Rightarrow> True | _ \<Rightarrow> False)"
| "cell_ok Float32 c = (case c of CSingle v \<Rightarrow> True | _ \<Rightarrow> False)"
| "cell_ok Utf8 c = (case c of CText v \<Rightarrow> True | _ \<Rightarrow> False)"
| "cell_ok Boolean c = (case c of CBool v \<Rightarrow> True | _ \<Rightarrow> False)"
| "cell_ok (FixedSizeList f n) c =
     (if field_type f = Float32 then (case c of CVec v \<Rightarrow> int (length v) = n | _ \<Rightarrow> False)
      else (case c of COther v \<Rightarrow> True | _ \<Rightarrow> False))"
| "cell_ok _ c = (case c of COther v \<Rightarrow> True | _ \<Rightarrow> False)"

definition array_ok :: "array \<Rightarrow> bool" where
  "array_ok a = list_all (\<lambda>c. case c of None \<Rightarrow> True | Some v \<Rightarrow> cell_ok (arr_type a) v) (cells a)"

definition column_fits :: "nat \<Rightarrow> field \<Rightarrow> array \<Rightarrow> bool" where
  "column_fits n f a = (arr_type a = field_type f \<and> length (cells a) = n \<and>
     (field_nullable f \<or> None \<notin> set (cells a)))"

text \<open>What \<open>RecordBatch::try_new\<close> requires of a schema and columns for a given row count.\<close>

definition columns_fit :: "nat \<Rightarrow> field list \<Rightarrow> array list \<Rightarrow> bool" where
  "columns_fit n fs cs = list_all2 (column_fits n) fs cs"

definition batch_ok :: "batch \<Rightarrow> bool" where
  "batch_ok b = (columns_fit (num_rows b) (schema b) (columns b) \<and> list_all array_ok (columns b))"

fun cell_i64 :: "cell \<Rightarrow> i64" where
  "cell_i64 (CInt v) = v"
| "cell_i64 _ = 0"

fun cell_f64 :: "cell \<Rightarrow> f64" where
  "cell_f64 (CFloat v) = v"
| "cell_f64 _ = 0"

fun cell_vec :: "cell \<Rightarrow> f32 list" where
  "cell_vec (CVec v) = map snd v"
| "cell_vec _ = []"

text \<open>\<open>downcast_ref::<Int64Array>()\<close> and \<open>downcast_ref::<Float64Array>()\<close>.\<close>

definition as_int64 :: "array \<Rightarrow> i64 option list option" where
  "as_int64 a = (if arr_type a = Int64 then Some (map (map_option cell_i64) (cells a)) else None)"

definition as_float64 :: "array \<Rightarrow> f64 option list option" where
  "as_float64 a = (if arr_type a = Float64 then Some (map (map_option cell_f64) (cells a)) else None)"

definition int64_array :: "i64 option list \<Rightarrow> array" where
  "int64_array xs = \<lparr>arr_type = Int64, cells = map (map_option CInt) xs\<rparr>"

definition float64_array :: "f64 option list \<Rightarrow> array" where
  "float64_array xs = \<lparr>arr_type = Float64, cells = map (map_option CFloat) xs\<rparr>"

definition float32_array :: "f32 option list \<Rightarrow> array" where
  "float32_array xs = \<lparr>arr_type = Float32, cells = map (map_option CSingle) xs\<rparr>"

section \<open>The compute kernels\<close>

type_synonym mask = "bool option list"

record arrow_ops =
  a_cmp :: "comparison \<Rightarrow> array \<Rightarrow> array \<Rightarrow> arrow_error + mask"
  a_and_kleene :: "mask \<Rightarrow> mask \<Rightarrow> arrow_error + mask"
  a_project :: "batch \<Rightarrow> nat list \<Rightarrow> arrow_error + batch"
  a_filter :: "batch \<Rightarrow> mask \<Rightarrow> arrow_error + batch"
  a_take :: "array \<Rightarrow> nat list \<Rightarrow> arrow_error + array"
  a_try_new :: "field list \<Rightarrow> array list \<Rightarrow> arrow_error + batch"
  a_take_ids :: "array \<Rightarrow> array \<Rightarrow> arrow_error + array"
  a_memory_size :: "batch \<Rightarrow> nat"
  a_concat :: "field list \<Rightarrow> batch list \<Rightarrow> arrow_error + batch"

text \<open>The order of cells: integers as such, floats by the IEEE total order.\<close>

fun cell_key :: "cell \<Rightarrow> int" where
  "cell_key (CInt v) = sint v"
| "cell_key (CFloat v) = total_key v"
| "cell_key _ = 0"

fun compare_keys :: "comparison \<Rightarrow> int \<Rightarrow> int \<Rightarrow> bool" where
  "compare_keys Eq x y = (x = y)"
| "compare_keys Lt x y = (x < y)"
| "compare_keys LtEq x y = (x \<le> y)"
| "compare_keys Gt x y = (x > y)"
| "compare_keys GtEq x y = (x \<ge> y)"

text \<open>Three-valued conjunction: false wins over \<open>NULL\<close>.\<close>

fun kleene_and :: "bool option \<Rightarrow> bool option \<Rightarrow> bool option" where
  "kleene_and (Some False) y = Some False"
| "kleene_and x (Some False) = Some False"
| "kleene_and (Some True) (Some True) = Some True"
| "kleene_and _ _ = None"

definition keep :: "mask \<Rightarrow> 'a list \<Rightarrow> 'a list" where
  "keep m xs = map snd (filter (\<lambda>(t, x). t = Some True) (zip m xs))"

definition filter_array :: "mask \<Rightarrow> array \<Rightarrow> array" where
  "filter_array m a = a\<lparr>cells := keep m (cells a)\<rparr>"

definition take_array :: "nat list \<Rightarrow> array \<Rightarrow> array" where
  "take_array js a = a\<lparr>cells := map ((!) (cells a)) js\<rparr>"

definition project_batch :: "batch \<Rightarrow> nat list \<Rightarrow> batch" where
  "project_batch b js = \<lparr>schema = map ((!) (schema b)) js, columns = map ((!) (columns b)) js,
                         num_rows = num_rows b\<rparr>"

definition filter_batch :: "batch \<Rightarrow> mask \<Rightarrow> batch" where
  "filter_batch b m = \<lparr>schema = schema b, columns = map (filter_array m) (columns b),
                       num_rows = length (keep m [0..<num_rows b])\<rparr>"

text \<open>Row numbers as a non-nullable \<open>Int64\<close> column.\<close>

definition row_id_array :: "nat list \<Rightarrow> array" where
  "row_id_array js = int64_array (map (\<lambda>j. Some (of_nat j)) js)"

text \<open>The rows of several batches of one schema, one batch after the other.\<close>

definition concat_batch :: "field list \<Rightarrow> batch list \<Rightarrow> batch" where
  "concat_batch fs bs = \<lparr>schema = fs,
     columns = map (\<lambda>i. \<lparr>arr_type = field_type (fs ! i), cells = concat (map (\<lambda>b. cells (columns b ! i)) bs)\<rparr>)
       [0..<length fs],
     num_rows = sum_list (map num_rows bs)\<rparr>"

definition new_rows :: "array list \<Rightarrow> nat" where
  "new_rows cs = (case cs of [] \<Rightarrow> 0 | c # _ \<Rightarrow> length (cells c))"

locale arrow_compute =
  fixes A :: arrow_ops
  assumes cmp_scalar: "array_ok a \<Longrightarrow> array_ok s \<Longrightarrow> arr_type a = Int64 \<or> arr_type a = Float64
      \<Longrightarrow> arr_type s = arr_type a \<Longrightarrow> cells s = [Some v]
      \<Longrightarrow> a_cmp A op a s = Inr (map (map_option (\<lambda>c. compare_keys op (cell_key c) (cell_key v))) (cells a))"
    and and_kleene_eq: "length l = length r \<Longrightarrow> a_and_kleene A l r = Inr (map2 kleene_and l r)"
    and project_in: "\<forall>j \<in> set js. j < length (columns b)
      \<Longrightarrow> batch_ok b \<Longrightarrow> a_project A b js = Inr (project_batch b js)"
    and project_out: "\<exists>j \<in> set js. length (columns b) \<le> j
      \<Longrightarrow> batch_ok b \<Longrightarrow> \<exists>e. a_project A b js = Inl e"
    and filter_eq: "batch_ok b \<Longrightarrow> columns b \<noteq> [] \<Longrightarrow> length m = num_rows b
      \<Longrightarrow> a_filter A b m = Inr (filter_batch b m)"
    and take_eq: "\<forall>j \<in> set js. j < length (cells a) \<Longrightarrow> a_take A a js = Inr (take_array js a)"
    and try_new_ok: "cs \<noteq> [] \<Longrightarrow> columns_fit (new_rows cs) fs cs
      \<Longrightarrow> a_try_new A fs cs = Inr \<lparr>schema = fs, columns = cs, num_rows = new_rows cs\<rparr>"
    and try_new_err: "cs = [] \<or> \<not> columns_fit (new_rows cs) fs cs \<Longrightarrow> \<exists>e. a_try_new A fs cs = Inl e"
    and take_ids_eq: "\<forall>j \<in> set js. j < length (cells a) \<and> j < 2 ^ 63
      \<Longrightarrow> a_take_ids A a (row_id_array js) = Inr (take_array js a)"
    and concat_eq: "\<forall>b \<in> set bs. batch_ok b \<and> schema b = fs \<Longrightarrow> a_concat A fs bs = Inr (concat_batch fs bs)"

definition arrow_ref :: arrow_ops where
  "arrow_ref = \<lparr>
     a_cmp = (\<lambda>op a s. case cells s of
         [Some v] \<Rightarrow> Inr (map (map_option (\<lambda>c. compare_keys op (cell_key c) (cell_key v))) (cells a))
       | _ \<Rightarrow> Inl (ArrowOther ''not a scalar'')),
     a_and_kleene = (\<lambda>l r. if length l = length r then Inr (map2 kleene_and l r)
       else Inl (ArrowOther ''length mismatch'')),
     a_project = (\<lambda>b js. if \<forall>j \<in> set js. j < length (columns b) then Inr (project_batch b js)
       else Inl (ArrowOther ''project index out of bounds'')),
     a_filter = (\<lambda>b m. if length m = num_rows b then Inr (filter_batch b m)
       else Inl (ArrowOther ''length mismatch'')),
     a_take = (\<lambda>a js. if \<forall>j \<in> set js. j < length (cells a) then Inr (take_array js a)
       else Inl (ArrowOther ''take index out of bounds'')),
     a_try_new = (\<lambda>fs cs. if cs \<noteq> [] \<and> columns_fit (new_rows cs) fs cs
       then Inr \<lparr>schema = fs, columns = cs, num_rows = new_rows cs\<rparr>
       else Inl (ArrowOther ''columns do not match the schema'')),
     a_take_ids = (\<lambda>a ids. case as_int64 ids of
         None \<Rightarrow> Inl (ArrowOther ''not an index type'')
       | Some is \<Rightarrow>
           if \<forall>i \<in> set is. case i of None \<Rightarrow> False | Some v \<Rightarrow> 0 \<le> sint v \<and> nat (sint v) < length (cells a)
           then Inr (take_array (map (\<lambda>i. case i of None \<Rightarrow> 0 | Some v \<Rightarrow> nat (sint v)) is) a)
           else Inl (ArrowOther ''take index out of bounds'')),
     a_memory_size = (\<lambda>b. 8 * num_rows b * length (columns b)),
     a_concat = (\<lambda>fs bs. if \<forall>b \<in> set bs. schema b = fs then Inr (concat_batch fs bs)
       else Inl (ArrowOther ''schema mismatch''))\<rparr>"

lemma as_int64_array [simp]: "as_int64 (int64_array xs) = Some xs"
  by (simp add: as_int64_def int64_array_def option.map_comp comp_def option.map_ident)

lemma sint_of_nat: "j < 2 ^ 63 \<Longrightarrow> sint (of_nat j :: i64) = int j"
proof -
  assume j: "j < 2 ^ 63"
  have "sint (of_nat j :: 64 word) = signed_take_bit 63 (int j)"
    using sint_sbintrunc' [of "int j", where 'a = 64] by simp
  also have "\<dots> = int j" using j by (intro signed_take_bit_int_eq_self) auto
  finally show ?thesis .
qed

lemma arrow_ref_take_ids:
  assumes "\<forall>j \<in> set js. j < length (cells a) \<and> j < 2 ^ 63"
  shows "a_take_ids arrow_ref a (row_id_array js) = Inr (take_array js a)"
proof -
  have "map (\<lambda>j. nat (sint (of_nat j :: i64))) js = js"
    using assms by (intro map_idI) (simp add: sint_of_nat)
  then show ?thesis using assms
    by (auto simp: arrow_ref_def row_id_array_def comp_def sint_of_nat)
qed

interpretation aref: arrow_compute arrow_ref
  by unfold_locales (auto simp: arrow_ref_take_ids, auto simp: arrow_ref_def not_less)

section \<open>Lemmas on batches\<close>

lemma columns_fit_length: "columns_fit n fs cs \<Longrightarrow> length fs = length cs"
  by (simp add: columns_fit_def list_all2_lengthD)

lemma batch_ok_length: "batch_ok b \<Longrightarrow> length (schema b) = length (columns b)"
  by (auto simp: batch_ok_def dest: columns_fit_length)

lemma batch_ok_nth:
  assumes "batch_ok b" and "i < length (columns b)"
  shows "column_fits (num_rows b) (schema b ! i) (columns b ! i)" and "array_ok (columns b ! i)"
  using assms by (auto simp: batch_ok_def columns_fit_def list_all2_conv_all_nth list_all_length)

lemma batch_ok_rows: "batch_ok b \<Longrightarrow> i < length (columns b) \<Longrightarrow> length (cells (columns b ! i)) = num_rows b"
  using batch_ok_nth(1) by (simp add: column_fits_def)

lemma batch_ok_type:
  "batch_ok b \<Longrightarrow> i < length (columns b) \<Longrightarrow> arr_type (columns b ! i) = field_type (schema b ! i)"
  using batch_ok_nth(1) by (simp add: column_fits_def)

lemma length_keep: "length m = length xs \<Longrightarrow> length (keep m xs) = length (filter (\<lambda>t. t = Some True) m)"
  by (induction m xs rule: list_induct2) (auto simp: keep_def)

lemma keep_map: "length m = length xs \<Longrightarrow> keep m (map f xs) = map f (keep m xs)"
  by (induction m xs rule: list_induct2) (auto simp: keep_def)

lemma keep_upt:
  "length m = n \<Longrightarrow> keep m [0..<n] = filter (\<lambda>i. m ! i = Some True) [0..<n]"
proof -
  assume n: "length m = n"
  have "zip m [0..<n] = map (\<lambda>i. (m ! i, i)) [0..<n]"
    using n by (intro nth_equalityI) auto
  then show ?thesis by (simp add: keep_def filter_map comp_def)
qed

lemma keep_nth:
  "length m = length xs \<Longrightarrow> keep m xs = map ((!) xs) (filter (\<lambda>i. m ! i = Some True) [0..<length xs])"
  using keep_map [of m "[0..<length xs]" "(!) xs"] keep_upt [of m "length xs"] by (simp add: map_nth)

lemma set_keep: "set (keep m xs) \<subseteq> set xs"
  by (auto simp: keep_def dest: set_zip_rightD)

lemma filter_array_ok: "array_ok a \<Longrightarrow> array_ok (filter_array m a)"
  using set_keep [of m "cells a"]
  by (auto simp: array_ok_def filter_array_def list_all_iff cong: option.case_cong)

lemma take_array_ok: "array_ok a \<Longrightarrow> \<forall>j \<in> set js. j < length (cells a) \<Longrightarrow> array_ok (take_array js a)"
  by (auto simp: array_ok_def take_array_def list_all_iff cong: option.case_cong)

lemma project_batch_ok:
  assumes "batch_ok b" and "\<forall>j \<in> set js. j < length (columns b)"
  shows "batch_ok (project_batch b js)"
  unfolding batch_ok_def [of "project_batch b js"] using assms batch_ok_nth [OF assms(1)]
  by (auto simp: project_batch_def columns_fit_def list_all2_conv_all_nth list_all_iff)

lemma filter_batch_ok:
  assumes "batch_ok b" and "length m = num_rows b"
  shows "batch_ok (filter_batch b m)"
proof -
  have "column_fits (num_rows (filter_batch b m)) (schema b ! i) (filter_array m (columns b ! i))"
    if "i < length (columns b)" for i
    using batch_ok_nth [OF assms(1) that] assms(2) set_keep [of m "cells (columns b ! i)"]
    by (auto simp: column_fits_def filter_array_def filter_batch_def length_keep)
  then show ?thesis
    unfolding batch_ok_def [of "filter_batch b m"]
    using assms batch_ok_length [OF assms(1)] batch_ok_nth(2) [OF assms(1)]
    by (auto simp: columns_fit_def list_all2_conv_all_nth filter_batch_def list_all_length filter_array_ok)
qed

lemma concat_batch_ok:
  assumes "\<forall>b \<in> set bs. batch_ok b \<and> schema b = fs"
  shows "batch_ok (concat_batch fs bs)"
proof -
  have col: "column_fits (num_rows b) (fs ! i) (columns b ! i)" "array_ok (columns b ! i)"
    if "b \<in> set bs" and "i < length fs" for b i
    using batch_ok_nth [of b i] batch_ok_length [of b] assms that by auto
  have "column_fits (sum_list (map num_rows bs)) (fs ! i)
      \<lparr>arr_type = field_type (fs ! i), cells = concat (map (\<lambda>b. cells (columns b ! i)) bs)\<rparr>" if "i < length fs" for i
    using col(1) [OF _ that] by (auto simp: column_fits_def length_concat comp_def intro!: arg_cong [where f = sum_list])
  moreover have "array_ok \<lparr>arr_type = field_type (fs ! i), cells = concat (map (\<lambda>b. cells (columns b ! i)) bs)\<rparr>"
    if "i < length fs" for i
    using col [OF _ that] by (auto simp: array_ok_def column_fits_def list_all_iff cong: option.case_cong)
  ultimately show ?thesis
    by (auto simp: batch_ok_def concat_batch_def columns_fit_def list_all2_conv_all_nth list_all_length)
qed

lemma constructed_arrays_ok [simp]:
  "array_ok (int64_array xs)" "array_ok (float64_array ys)" "array_ok (float32_array zs)"
  by (auto simp: array_ok_def int64_array_def float64_array_def float32_array_def list_all_iff
      split: option.splits)

lemma constructed_arrays_type [simp]:
  "arr_type (int64_array xs) = Int64" "arr_type (float64_array ys) = Float64"
  "arr_type (float32_array zs) = Float32"
  by (simp_all add: int64_array_def float64_array_def float32_array_def)

lemma constructed_arrays_length [simp]:
  "length (cells (int64_array xs)) = length xs" "length (cells (float64_array ys)) = length ys"
  "length (cells (float32_array zs)) = length zs"
  by (simp_all add: int64_array_def float64_array_def float32_array_def)

lemma kleene_and_true: "kleene_and x y = Some True \<longleftrightarrow> x = Some True \<and> y = Some True"
  by (cases "(x, y)" rule: kleene_and.cases) auto

end
