(* ===== verification/Cpu_Kernels.thy ===== *)
theory Cpu_Kernels
  imports Arrow_Data
begin

unbundle bit_operations_syntax

text \<open>
  The CPU reference kernels (\<open>crates/oxidelake-device/src/cpu/kernels.rs\<close>): fused filter and
  projection, the hash-join table and its probe, grouped aggregation and vector distance.

  A \<open>HashMap\<close> is an association list with distinct keys.  The order in which the join table is
  iterated is unspecified; it is the argument \<open>ord\<close> of the definitions, any function that permutes.
  The parallel iterator of the distance kernel collects in row order.
\<close>

section \<open>Filter and projection\<close>

definition get_column :: "batch \<Rightarrow> nat \<Rightarrow> array result" where
  "get_column b index =
    (if index < length (columns b) then Inr (columns b ! index)
     else fail (Plan [Txt ''column index '', Num index, Txt '' out of range for a batch with '',
                      Num (length (columns b)), Txt '' columns'']))"

definition int64_column :: "batch \<Rightarrow> nat \<Rightarrow> string \<Rightarrow> i64 option list result" where
  "int64_column b index role = and_then (get_column b index) (\<lambda>col.
     ok_or (as_int64 col)
       (Err (Unsupported ''cpu.int64_column'' [Txt role, Txt '' column '', Num index, Txt '' has type '',
          Ty (arr_type col), Txt ''; v1 supports Int64''])))"

fun scalar_array :: "literal \<Rightarrow> array" where
  "scalar_array (LInt64 v) = int64_array [Some v]"
| "scalar_array (LFloat64 v) = float64_array [Some v]"

fun evaluate_predicate :: "arrow_ops \<Rightarrow> batch \<Rightarrow> predicate \<Rightarrow> mask result" where
  "evaluate_predicate A b (Compare idx op lit) = and_then (get_column b idx) (\<lambda>col.
     if arr_type col \<noteq> literal_data_type lit
     then fail (Unsupported ''cpu.filter'' [Txt ''column '', Num idx, Txt '' has type '',
            Ty (arr_type col), Txt '' but the literal is '', Ty (literal_data_type lit)])
     else lift_arrow (a_cmp A op col (scalar_array lit)))"
| "evaluate_predicate A b (And left right) =
     and_then (evaluate_predicate A b left) (\<lambda>l.
     and_then (evaluate_predicate A b right) (\<lambda>r.
     lift_arrow (a_and_kleene A l r)))"

definition filter_project :: "arrow_ops \<Rightarrow> batch \<Rightarrow> predicate \<Rightarrow> nat list \<Rightarrow> batch result" where
  "filter_project A b p projection =
     and_then (evaluate_predicate A b p) (\<lambda>m.
     and_then (lift_arrow (a_project A b projection)) (\<lambda>projected.
     lift_arrow (a_filter A projected m)))"

section \<open>The hash of join keys\<close>

definition hasher_finish :: "u64 \<Rightarrow> u64" where
  "hasher_finish h =
    (let z = h;
         z = (z XOR drop_bit 30 z) * 0xBF58476D1CE4E5B9;
         z = (z XOR drop_bit 27 z) * 0x94D049BB133111EB
     in z XOR drop_bit 31 z)"

definition u64_from_le_bytes :: "8 word list \<Rightarrow> u64" where
  "u64_from_le_bytes bs = foldr (\<lambda>b acc. ucast b + 256 * acc) bs 0"

fun hasher_write :: "u64 \<Rightarrow> 8 word list \<Rightarrow> u64" where
  "hasher_write h [] = h"
| "hasher_write h (b # bs) =
     (let chunk = take 8 (b # bs); word = chunk @ replicate (8 - length chunk) 0 in
      hasher_write (word_rotl 5 h XOR u64_from_le_bytes word) (drop 7 bs))"

definition hasher_write_i64 :: "u64 \<Rightarrow> i64 \<Rightarrow> u64" where
  "hasher_write_i64 h i = word_rotl 5 h XOR i"

text \<open>The hash a key gets: a default hasher, one write, one finish.\<close>

definition key_hash :: "i64 \<Rightarrow> u64" where
  "key_hash k = hasher_finish (hasher_write_i64 0 k)"

section \<open>The join table\<close>

record join_table =
  ranges :: "(i64 \<times> (nat \<times> nat)) list"
  jt_rows :: "nat list"

definition index_u32 :: "nat \<Rightarrow> nat result" where
  "index_u32 i = (if i \<le> u32_max then Inr i
                  else fail (Execution [Txt ''batch exceeds u32::MAX rows'']))"

text \<open>Pass 1: rows per key.\<close>

fun count_keys :: "i64 option list \<Rightarrow> (i64 \<times> nat) list \<Rightarrow> (i64 \<times> nat) list" where
  "count_keys [] counts = counts"
| "count_keys (None # ks) counts = count_keys ks counts"
| "count_keys (Some k # ks) counts =
     count_keys ks (AList.update k (u32_add (case map_of counts k of None \<Rightarrow> 0 | Some c \<Rightarrow> c) 1) counts)"

text \<open>Pass 2: prefix offsets, in iteration order of the counts.\<close>

fun assign_ranges :: "(i64 \<times> nat) list \<Rightarrow> nat \<Rightarrow> (i64 \<times> (nat \<times> nat)) list
    \<Rightarrow> ((i64 \<times> (nat \<times> nat)) list \<times> nat) result" where
  "assign_ranges [] start rs = Inr (rs, start)"
| "assign_ranges ((k, c) # counts) start rs =
     and_then (ok_or (u32_checked_add start c) (Err (Execution [Txt ''build side exceeds u32::MAX rows''])))
       (\<lambda>end. assign_ranges counts end (AList.update k (start, c) rs))"

text \<open>Pass 3: scatter the row numbers; the cursor of a key is the next free slot of its range.\<close>

fun scatter_rows :: "nat \<Rightarrow> i64 option list \<Rightarrow> (i64 \<times> nat) list \<Rightarrow> nat list \<Rightarrow> nat list result" where
  "scatter_rows j [] cursor rows = Inr rows"
| "scatter_rows j (None # ks) cursor rows = scatter_rows (Suc j) ks cursor rows"
| "scatter_rows j (Some k # ks) cursor rows =
     (case map_of cursor k of
        None \<Rightarrow> scatter_rows (Suc j) ks cursor rows
      | Some slot \<Rightarrow> and_then (index_u32 j) (\<lambda>v.
          if slot < length rows
          then scatter_rows (Suc j) ks (AList.update k (u32_add slot 1) cursor) (rows[slot := v])
          else Inl (Panic ''index out of bounds'')))"

definition table_of_keys :: "((i64 \<times> nat) list \<Rightarrow> (i64 \<times> nat) list) \<Rightarrow> i64 option list
    \<Rightarrow> join_table result" where
  "table_of_keys ord keys =
     and_then (assign_ranges (ord (count_keys keys [])) 0 []) (\<lambda>(rs, end).
     and_then (scatter_rows 0 keys (map (\<lambda>(k, r). (k, fst r)) rs) (replicate end 0)) (\<lambda>rows.
     Inr \<lparr>ranges = rs, jt_rows = rows\<rparr>))"

definition table_build :: "((i64 \<times> nat) list \<Rightarrow> (i64 \<times> nat) list) \<Rightarrow> batch \<Rightarrow> nat \<Rightarrow> join_table result" where
  "table_build ord build key =
     and_then (int64_column build key ''build join key'') (table_of_keys ord)"

definition table_matches :: "join_table \<Rightarrow> i64 \<Rightarrow> nat list result" where
  "table_matches t key = (case map_of (ranges t) key of
      None \<Rightarrow> Inr []
    | Some (start, len) \<Rightarrow>
        if start \<le> u32_add start len \<and> u32_add start len \<le> length (jt_rows t)
        then Inr (take (u32_add start len - start) (drop start (jt_rows t)))
        else Inl (Panic ''range out of bounds''))"

definition distinct_keys :: "join_table \<Rightarrow> nat" where
  "distinct_keys t = length (ranges t)"

definition table_rows :: "join_table \<Rightarrow> nat" where
  "table_rows t = length (jt_rows t)"

section \<open>The probe\<close>

fun probe_rows :: "join_table \<Rightarrow> nat \<Rightarrow> i64 option list \<Rightarrow> nat list \<Rightarrow> nat list
    \<Rightarrow> (nat list \<times> nat list) result" where
  "probe_rows t i [] left_idx right_idx = Inr (left_idx, right_idx)"
| "probe_rows t i (None # ks) left_idx right_idx = probe_rows t (Suc i) ks left_idx right_idx"
| "probe_rows t i (Some k # ks) left_idx right_idx =
     and_then (table_matches t k) (\<lambda>ms.
       if ms = [] then probe_rows t (Suc i) ks left_idx right_idx
       else and_then (index_u32 i) (\<lambda>i'.
         probe_rows t (Suc i) ks (left_idx @ replicate (length ms) i') (right_idx @ ms)))"

definition join_column :: "arrow_ops \<Rightarrow> batch \<Rightarrow> batch \<Rightarrow> nat list \<Rightarrow> nat list \<Rightarrow> nat
    \<Rightarrow> (field \<times> array) result" where
  "join_column A left right left_idx right_idx index =
    (let all_fields = schema left @ schema right; width = length (columns left) in
     if index < length all_fields then
       map_res (Pair (all_fields ! index))
         (if index < width then lift_arrow (a_take A (columns left ! index) left_idx)
          else if index - width < length (columns right)
          then lift_arrow (a_take A (columns right ! (index - width)) right_idx)
          else Inl (Panic ''index out of bounds''))
     else fail (Plan [Txt ''join projection index '', Num index, Txt '' out of range for '',
                      Num (length all_fields), Txt '' columns'']))"

definition hash_join_probe :: "arrow_ops \<Rightarrow> batch \<Rightarrow> nat \<Rightarrow> batch \<Rightarrow> join_table \<Rightarrow> nat list option
    \<Rightarrow> batch result" where
  "hash_join_probe A left left_key right t projection =
     and_then (int64_column left left_key ''left join key'') (\<lambda>lk.
     and_then (probe_rows t 0 lk [] []) (\<lambda>(left_idx, right_idx).
     let selected = (case projection of Some indices \<Rightarrow> indices
                     | None \<Rightarrow> [0..<length (schema left @ schema right)]) in
     and_then (collect_res (join_column A left right left_idx right_idx) selected) (\<lambda>cols.
     lift_arrow (a_try_new A (map fst cols) (map snd cols)))))"

definition hash_join :: "((i64 \<times> nat) list \<Rightarrow> (i64 \<times> nat) list) \<Rightarrow> arrow_ops \<Rightarrow> batch \<Rightarrow> batch
    \<Rightarrow> nat \<Rightarrow> nat \<Rightarrow> batch result" where
  "hash_join ord A left right left_key right_key =
     and_then (table_build ord right right_key) (\<lambda>t. hash_join_probe A left left_key right t None)"

section \<open>What a predicate means\<close>

text \<open>The value of a predicate on a row, and the predicates whose columns exist with the literal's type.\<close>

fun literal_key :: "literal \<Rightarrow> int" where
  "literal_key (LInt64 v) = sint v"
| "literal_key (LFloat64 v) = total_key v"

fun pred_row :: "batch \<Rightarrow> predicate \<Rightarrow> nat \<Rightarrow> bool option" where
  "pred_row b (Compare i op lit) r =
     map_option (\<lambda>c. compare_keys op (cell_key c) (literal_key lit)) (cells (columns b ! i) ! r)"
| "pred_row b (And p q) r = kleene_and (pred_row b p r) (pred_row b q r)"

fun pred_typed :: "data_type list \<Rightarrow> predicate \<Rightarrow> bool" where
  "pred_typed ts (Compare i op lit) = (i < length ts \<and> ts ! i = literal_data_type lit)"
| "pred_typed ts (And p q) = (pred_typed ts p \<and> pred_typed ts q)"

definition kept_rows :: "batch \<Rightarrow> predicate \<Rightarrow> nat list" where
  "kept_rows b p = filter (\<lambda>r. pred_row b p r = Some True) [0..<num_rows b]"

text \<open>The batch of the given columns and rows, in the given orders.\<close>

definition gather_batch :: "batch \<Rightarrow> nat list \<Rightarrow> nat list \<Rightarrow> batch" where
  "gather_batch b rows js = \<lparr>schema = map ((!) (schema b)) js,
     columns = map (\<lambda>j. take_array rows (columns b ! j)) js, num_rows = length rows\<rparr>"

lemma scalar_array_props:
  "array_ok (scalar_array lit)" "arr_type (scalar_array lit) = literal_data_type lit"
  "\<exists>v. cells (scalar_array lit) = [Some v] \<and> cell_key v = literal_key lit"
  by (cases lit; simp add: int64_array_def float64_array_def array_ok_def)+

lemma literal_data_type_cases: "literal_data_type lit = Int64 \<or> literal_data_type lit = Float64"
  by (cases lit) auto

lemma pred_row_true_And:
  "pred_row b (And p q) r = Some True \<longleftrightarrow> pred_row b p r = Some True \<and> pred_row b q r = Some True"
  by (simp add: kleene_and_true)

context arrow_compute
begin

lemma evaluate_predicate_rows:
  assumes "batch_ok b" and "pred_typed (map arr_type (columns b)) p"
  shows "evaluate_predicate A b p = Inr (map (pred_row b p) [0..<num_rows b])"
  using assms(2)
proof (induction p)
  case (Compare i op lit)
  let ?c = "columns b ! i"
  have i: "i < length (columns b)" and ty: "arr_type ?c = literal_data_type lit"
    using Compare by auto
  obtain v where v: "cells (scalar_array lit) = [Some v]" "cell_key v = literal_key lit"
    using scalar_array_props(3) by blast
  have n: "length (cells ?c) = num_rows b" using batch_ok_rows [OF assms(1) i] .
  have "a_cmp A op ?c (scalar_array lit)
      = Inr (map (map_option (\<lambda>c. compare_keys op (cell_key c) (cell_key v))) (cells ?c))"
    using batch_ok_nth(2) [OF assms(1) i] scalar_array_props ty literal_data_type_cases v(1)
    by (intro cmp_scalar) auto
  then show ?case using i ty v(2) n
    by (simp add: get_column_def) (metis (no_types, lifting) map_nth map_map comp_apply map_cong n)
next
  case (And p q)
  then have "evaluate_predicate A b (And p q)
      = lift_arrow (a_and_kleene A (map (pred_row b p) [0..<num_rows b]) (map (pred_row b q) [0..<num_rows b]))"
    by simp
  also have "\<dots> = Inr (map (pred_row b (And p q)) [0..<num_rows b])"
    by (simp add: and_kleene_eq zip_map1 zip_map2 zip_same_conv_map comp_def)
  finally show ?case .
qed

text \<open>A leaf of the wrong type is reported as unsupported, whatever its place in the predicate.\<close>

lemma evaluate_predicate_unsupported:
  assumes "batch_ok b" and "\<forall>i \<in> set (pred_columns p). i < length (columns b)"
    and "\<not> pred_typed (map arr_type (columns b)) p"
  shows "\<exists>d. evaluate_predicate A b p = fail (Unsupported ''cpu.filter'' d)"
  using assms(2,3)
proof (induction p)
  case (And p q)
  show ?case
  proof (cases "pred_typed (map arr_type (columns b)) p")
    case True
    then show ?thesis using And evaluate_predicate_rows [OF assms(1) True] by auto
  next
    case False
    then show ?thesis using And by auto
  qed
qed (auto simp: get_column_def)

lemma filter_project_rows:
  assumes "batch_ok b" and "pred_typed (map arr_type (columns b)) p"
    and "projection \<noteq> []" and "\<forall>j \<in> set projection. j < length (columns b)"
  shows "filter_project A b p projection = Inr (gather_batch b (kept_rows b p) projection)"
proof -
  let ?m = "map (pred_row b p) [0..<num_rows b]"
  let ?b = "project_batch b projection"
  have ok: "batch_ok ?b" by (rule project_batch_ok [OF assms(1,4)])
  have "filter_project A b p projection = Inr (filter_batch ?b ?m)"
    using assms ok by (simp add: filter_project_def evaluate_predicate_rows project_in filter_eq project_batch_def)
  also have "filter_batch ?b ?m = gather_batch b (kept_rows b p) projection"
  proof -
    have k: "filter (\<lambda>i. ?m ! i = Some True) [0..<num_rows b] = kept_rows b p"
      by (auto simp: kept_rows_def intro: filter_cong)
    have "filter_array ?m (columns b ! j) = take_array (kept_rows b p) (columns b ! j)"
      if "j \<in> set projection" for j
      using that assms(1,4) k by (simp add: filter_array_def take_array_def keep_nth batch_ok_rows)
    then show ?thesis using k
      by (simp add: filter_batch_def gather_batch_def project_batch_def keep_upt)
  qed
  finally show ?thesis .
qed

end

section \<open>Properties\<close>

text \<open>
  C1: Fused filter and projection has SQL \<open>WHERE\<close> semantics: on a well-formed batch and a predicate
  whose leaves have the types of their columns, the result holds exactly the projected columns in
  projection order, restricted in row order to the rows on which the predicate is true, neither
  false nor \<open>NULL\<close>.
\<close>

theorem filter_project_correct:
  assumes "arrow_compute A" and "batch_ok b" and "pred_typed (map arr_type (columns b)) p"
    and "projection \<noteq> []" and "\<forall>j \<in> set projection. j < length (columns b)"
  shows "filter_project A b p projection = Inr (gather_batch b (kept_rows b p) projection)"
  using arrow_compute.filter_project_rows [OF assms] .

theorem filter_project_correct_witness:
  "filter_project arrow_ref
     \<lparr>schema = [Field ''k'' Int64 True, Field ''v'' Int64 False],
      columns = [int64_array [Some 1, None, Some 5], int64_array [Some 7, Some 8, Some 9]], num_rows = 3\<rparr>
     (And (Compare 0 Gt (LInt64 2)) (Compare 1 GtEq (LInt64 7))) [1]
   = Inr \<lparr>schema = [Field ''v'' Int64 False], columns = [int64_array [Some 9]], num_rows = 1\<rparr>"
  using filter_project_correct [OF aref.arrow_compute_axioms,
    of "\<lparr>schema = [Field ''k'' Int64 True, Field ''v'' Int64 False],
      columns = [int64_array [Some 1, None, Some 5], int64_array [Some 7, Some 8, Some 9]], num_rows = 3\<rparr>"
      "And (Compare 0 Gt (LInt64 2)) (Compare 1 GtEq (LInt64 7))" "[1]"]
  by (simp add: batch_ok_def columns_fit_def column_fits_def int64_array_def array_ok_def kept_rows_def
      gather_batch_def take_array_def upt_rec)

text \<open>
  C5: A predicate with a leaf whose literal type differs from the column type is refused with an
  \<open>Unsupported\<close> error, the one kind of error that operators answer by falling back, and never
  evaluated to a wrong mask.
\<close>

theorem filter_project_type_mismatch:
  assumes "arrow_compute A" and "batch_ok b" and "\<forall>i \<in> set (pred_columns p). i < length (columns b)"
    and "\<not> pred_typed (map arr_type (columns b)) p"
  shows "\<exists>d. filter_project A b p projection = fail (Unsupported ''cpu.filter'' d)"
  using arrow_compute.evaluate_predicate_unsupported [OF assms] by (auto simp: filter_project_def)

theorem filter_project_type_mismatch_witness:
  "\<exists>d. filter_project arrow_ref \<lparr>schema = [Field ''k'' Int64 True], columns = [int64_array [Some 1]], num_rows = 1\<rparr>
     (And (Compare 0 Gt (LInt64 2)) (Compare 0 Lt (LFloat64 0))) [0] = fail (Unsupported ''cpu.filter'' d)"
  using filter_project_type_mismatch [OF aref.arrow_compute_axioms,
    of "\<lparr>schema = [Field ''k'' Int64 True], columns = [int64_array [Some 1]], num_rows = 1\<rparr>"
       "And (Compare 0 Gt (LInt64 2)) (Compare 0 Lt (LFloat64 0))" "[0]"]
  by (simp add: batch_ok_def columns_fit_def column_fits_def array_ok_def int64_array_def)

end
