(* ===== verification/Join_Table.thy ===== *)
theory Join_Table
  imports Cpu_Kernels
begin

text \<open>
  Correctness of the join table of \<open>Cpu_Kernels\<close>: whatever order the hash map iterates in, the table
  built from a key column returns for every key the row numbers that hold it, in row order.  The
  three passes are characterised one by one.
\<close>

definition rows_with :: "i64 option list \<Rightarrow> i64 \<Rightarrow> nat list" where
  "rows_with keys k = filter (\<lambda>j. keys ! j = Some k) [0..<length keys]"

section \<open>Rows of a key\<close>

lemma rows_with_Nil [simp]: "rows_with [] k = []"
  by (simp add: rows_with_def)

lemma rows_with_snoc: "rows_with (pre @ [x]) k = rows_with pre k @ (if x = Some k then [length pre] else [])"
proof -
  have "filter (\<lambda>j. (pre @ [x]) ! j = Some k) [0..<length pre] = filter (\<lambda>j. pre ! j = Some k) [0..<length pre]"
    by (intro filter_cong) (auto simp: nth_append)
  then show ?thesis by (simp add: rows_with_def)
qed

lemma length_rows_with: "length (rows_with keys k) = count_list keys (Some k)"
  by (induction keys rule: rev_induct) (auto simp: rows_with_snoc)

lemma rows_with_less: "j \<in> set (rows_with keys k) \<Longrightarrow> j < length keys"
  by (simp add: rows_with_def)

section \<open>Pass 1\<close>

lemma count_keys_distinct: "distinct (map fst cs) \<Longrightarrow> distinct (map fst (count_keys ks cs))"
  by (induction ks cs rule: count_keys.induct) (auto simp: distinct_update)

lemma count_keys_lookup:
  assumes "\<forall>k c. map_of cs k = Some c \<longrightarrow> c + length ks \<le> u32_max" and "length ks \<le> u32_max"
  shows "map_of (count_keys ks cs) k =
    (case map_of cs k of
       None \<Rightarrow> if count_list ks (Some k) = 0 then None else Some (count_list ks (Some k))
     | Some c \<Rightarrow> Some (c + count_list ks (Some k)))"
  using assms
proof (induction ks cs rule: count_keys.induct)
  case (2 ks cs)
  have "\<forall>k c. map_of cs k = Some c \<longrightarrow> c + length ks \<le> u32_max"
    using 2(2) by (metis Suc_leD add_Suc_right length_Cons)
  then show ?case using 2 by (simp split: option.splits)
next
  case (3 k' ks cs)
  let ?c = "case map_of cs k' of None \<Rightarrow> 0 | Some c \<Rightarrow> c"
  have bound: "?c + Suc (length ks) \<le> u32_max"
    using 3(2,3) by (auto split: option.splits)
  then have exact: "u32_add ?c 1 = Suc ?c" by (simp add: u32_add_exact)
  have "\<forall>k c. map_of (AList.update k' (u32_add ?c 1) cs) k = Some c \<longrightarrow> c + length ks \<le> u32_max"
    using 3(2) bound exact
    by (auto simp: update_conv' split: if_splits) (metis Suc_leD add_Suc_right)
  then have "map_of (count_keys ks (AList.update k' (u32_add ?c 1) cs)) k =
    (case map_of (AList.update k' (u32_add ?c 1) cs) k of
       None \<Rightarrow> if count_list ks (Some k) = 0 then None else Some (count_list ks (Some k))
     | Some c \<Rightarrow> Some (c + count_list ks (Some k)))"
    using 3(1,3) by simp
  then show ?case using exact by (auto simp: update_conv' split: option.splits)
qed (simp split: option.splits)

lemma sum_snd_update:
  "distinct (map fst al) \<Longrightarrow>
   sum_list (map snd (AList.update k v al)) + (case map_of al k of None \<Rightarrow> 0 | Some c \<Rightarrow> c)
     = sum_list (map snd al) + (v :: nat)"
  by (induction al) (auto simp: map_of_eq_None_iff split: option.splits)

lemma count_keys_sum:
  assumes "\<forall>k c. map_of cs k = Some c \<longrightarrow> c + length ks \<le> u32_max" and "length ks \<le> u32_max"
    and "distinct (map fst cs)"
  shows "sum_list (map snd (count_keys ks cs)) = sum_list (map snd cs) + length (filter (\<lambda>x. x \<noteq> None) ks)"
  using assms
proof (induction ks cs rule: count_keys.induct)
  case (2 ks cs)
  have "\<forall>k c. map_of cs k = Some c \<longrightarrow> c + length ks \<le> u32_max"
    using 2(2) by (metis Suc_leD add_Suc_right length_Cons)
  then show ?case using 2 by simp
next
  case (3 k' ks cs)
  let ?c = "case map_of cs k' of None \<Rightarrow> 0 | Some c \<Rightarrow> c"
  have bound: "?c + Suc (length ks) \<le> u32_max"
    using 3(2,3) by (auto split: option.splits)
  then have exact: "u32_add ?c 1 = Suc ?c" by (simp add: u32_add_exact)
  have "\<forall>k c. map_of (AList.update k' (u32_add ?c 1) cs) k = Some c \<longrightarrow> c + length ks \<le> u32_max"
    using 3(2) bound exact
    by (auto simp: update_conv' split: if_splits) (metis Suc_leD add_Suc_right)
  then have "sum_list (map snd (count_keys ks (AList.update k' (u32_add ?c 1) cs)))
      = sum_list (map snd (AList.update k' (u32_add ?c 1) cs)) + length (filter (\<lambda>x. x \<noteq> None) ks)"
    using 3(1,3,4) by (simp add: distinct_update)
  then show ?case using sum_snd_update [OF 3(4), of k' "u32_add ?c 1"] exact by simp
qed simp

section \<open>Pass 2\<close>

fun prefix_ranges :: "(i64 \<times> nat) list \<Rightarrow> nat \<Rightarrow> (i64 \<times> (nat \<times> nat)) list" where
  "prefix_ranges [] s = []"
| "prefix_ranges ((k, c) # cs) s = (k, (s, c)) # prefix_ranges cs (s + c)"

lemma prefix_ranges_keys [simp]: "map fst (prefix_ranges cs s) = map fst cs"
  by (induction cs s rule: prefix_ranges.induct) auto

lemma prefix_ranges_dom [simp]: "fst ` set (prefix_ranges cs s) = fst ` set cs"
  by (metis prefix_ranges_keys set_map)

lemma assign_ranges_prefix:
  assumes "distinct (map fst cs)" and "fst ` set cs \<inter> fst ` set rs = {}"
    and "s + sum_list (map snd cs) \<le> u32_max"
  shows "assign_ranges cs s rs = Inr (rs @ prefix_ranges cs s, s + sum_list (map snd cs))"
  using assms
proof (induction cs s rs rule: assign_ranges.induct)
  case (2 k c cs s rs)
  have "AList.update k (s, c) rs = rs @ [(k, (s, c))]"
    using 2(3) by (intro update_fresh) auto
  moreover have "u32_checked_add s c = Some (s + c)"
    using 2(4) by (simp add: u32_checked_add_def)
  moreover have "fst ` set cs \<inter> fst ` set (rs @ [(k, (s, c))]) = {}"
    using 2(2,3) by auto
  ultimately show ?case using 2 by (simp add: add.assoc)
qed simp

lemma prefix_ranges_bounds:
  "(k, (a, c)) \<in> set (prefix_ranges cs s) \<Longrightarrow> s \<le> a \<and> a + c \<le> s + sum_list (map snd cs)"
  by (induction cs s rule: prefix_ranges.induct) fastforce+

lemma prefix_ranges_counts: "map_of (prefix_ranges cs s) k = Some (a, c) \<Longrightarrow> map_of cs k = Some c"
  by (induction cs s rule: prefix_ranges.induct) (auto split: if_splits)

lemma prefix_ranges_disjoint:
  assumes "distinct (map fst cs)" and "k \<noteq> k'"
    and "map_of (prefix_ranges cs s) k = Some (a, c)" and "map_of (prefix_ranges cs s) k' = Some (a', c')"
  shows "a + c \<le> a' \<or> a' + c' \<le> a"
  using assms
proof (induction cs s rule: prefix_ranges.induct)
  case (2 l d cs s)
  have "s + d \<le> b" if "map_of (prefix_ranges cs (s + d)) m = Some (b, e)" for m b e
    using prefix_ranges_bounds [of m b e cs "s + d"] that by (auto dest: map_of_SomeD)
  then show ?case using 2 by (auto split: if_splits)
qed simp

section \<open>Pass 3\<close>

text \<open>Ranges \<open>start k .. start k + count\<close> for the keys that occur, disjoint and below \<open>tot\<close>.\<close>

definition fits :: "i64 option list \<Rightarrow> (i64 \<Rightarrow> nat) \<Rightarrow> nat \<Rightarrow> bool" where
  "fits keys start tot \<longleftrightarrow>
     (\<forall>k. Some k \<in> set keys \<longrightarrow> start k + count_list keys (Some k) \<le> tot) \<and>
     (\<forall>k k'. Some k \<in> set keys \<longrightarrow> Some k' \<in> set keys \<longrightarrow> k \<noteq> k' \<longrightarrow>
        start k + count_list keys (Some k) \<le> start k' \<or> start k' + count_list keys (Some k') \<le> start k)"

text \<open>The rows and the cursor after the rows of \<open>pre\<close> have been placed.\<close>

definition placed :: "i64 option list \<Rightarrow> (i64 \<Rightarrow> nat) \<Rightarrow> i64 option list \<Rightarrow> (i64 \<times> nat) list \<Rightarrow> nat list \<Rightarrow> bool" where
  "placed keys start pre cursor rows \<longleftrightarrow>
     (\<forall>k. Some k \<in> set keys \<longrightarrow> map_of cursor k = Some (start k + count_list pre (Some k))) \<and>
     (\<forall>k t. Some k \<in> set keys \<longrightarrow> t < count_list pre (Some k) \<longrightarrow> rows ! (start k + t) = rows_with pre k ! t)"

lemma count_list_pos: "x \<in> set xs \<Longrightarrow> 0 < count_list xs x"
  using count_list_0_iff [of xs x] by auto

lemma placed_step:
  assumes "fits keys start tot" and "keys = pre @ Some k # ks" and "placed keys start pre cursor rows"
    and "length rows = tot"
  defines "slot \<equiv> start k + count_list pre (Some k)"
  shows "slot < tot"
    and "placed keys start (pre @ [Some k]) (AList.update k (Suc slot) cursor) (rows[slot := length pre])"
proof -
  have k: "Some k \<in> set keys" using assms(2) by simp
  have c: "count_list pre (Some k) < count_list keys (Some k)" using assms(2) by simp
  then show less: "slot < tot" using assms(1) k by (auto simp: fits_def slot_def)
  have other: "start k' + t \<noteq> slot" if "Some k' \<in> set keys" "k' \<noteq> k" "t < count_list pre (Some k')" for k' t
  proof -
    have "count_list pre (Some k') \<le> count_list keys (Some k')" using assms(2) by simp
    moreover have "start k + count_list keys (Some k) \<le> start k' \<or> start k' + count_list keys (Some k') \<le> start k"
      using assms(1) that(1,2) k unfolding fits_def by blast
    ultimately show ?thesis using that(3) c unfolding slot_def by linarith
  qed
  show "placed keys start (pre @ [Some k]) (AList.update k (Suc slot) cursor) (rows[slot := length pre])"
    unfolding placed_def
  proof (intro conjI allI impI)
    fix k' assume "Some k' \<in> set keys"
    then show "map_of (AList.update k (Suc slot) cursor) k' = Some (start k' + count_list (pre @ [Some k]) (Some k'))"
      using assms(3) by (auto simp: update_conv' placed_def slot_def)
  next
    fix k' t assume k': "Some k' \<in> set keys" and t: "t < count_list (pre @ [Some k]) (Some k')"
    show "rows[slot := length pre] ! (start k' + t) = rows_with (pre @ [Some k]) k' ! t"
    proof (cases "k' = k \<and> t = count_list pre (Some k)")
      case True
      then show ?thesis using less assms(4)
        by (simp add: slot_def rows_with_snoc nth_append length_rows_with)
    next
      case False
      then have t': "t < count_list pre (Some k')" using t by (auto split: if_splits)
      then have "start k' + t \<noteq> slot" using other k' by (cases "k' = k") (auto simp: slot_def)
      then show ?thesis using assms(3) k' t'
        by (simp add: placed_def rows_with_snoc nth_append length_rows_with)
    qed
  qed
qed

lemma scatter_rows_placed:
  assumes "fits keys start tot" and "keys = pre @ ks" and "placed keys start pre cursor rows"
    and "length rows = tot" and "length keys \<le> u32_max" and "tot \<le> u32_max"
  shows "\<exists>cursor' rows'. scatter_rows (length pre) ks cursor rows = Inr rows'
    \<and> placed keys start keys cursor' rows' \<and> length rows' = tot"
  using assms(2-4)
proof (induction ks arbitrary: pre cursor rows)
  case Nil
  then show ?case by auto
next
  case (Cons x ks)
  show ?case
  proof (cases x)
    case None
    have "placed keys start (pre @ [None]) cursor rows"
      using Cons(3) by (simp add: placed_def rows_with_snoc)
    then show ?thesis using Cons(1) [of "pre @ [None]" cursor rows] Cons(2,4) None by simp
  next
    case (Some k)
    let ?slot = "start k + count_list pre (Some k)"
    note step = placed_step [OF assms(1) _ Cons(3,4), of k ks]
    have keys: "keys = pre @ Some k # ks" using Cons(2) Some by simp
    have "map_of cursor k = Some ?slot" using Cons(3) keys by (simp add: placed_def)
    moreover have "index_u32 (length pre) = Inr (length pre)"
      using assms(5) keys by (simp add: index_u32_def)
    moreover have "u32_add ?slot 1 = Suc ?slot"
      using step(1) [OF keys] assms(6) by (simp add: u32_add_exact)
    ultimately have "scatter_rows (length pre) (x # ks) cursor rows
        = scatter_rows (length (pre @ [Some k])) ks (AList.update k (Suc ?slot) cursor) (rows[?slot := length pre])"
      using Some step(1) [OF keys] Cons(4) by simp
    then show ?thesis
      using Cons(1) [of "pre @ [Some k]", OF _ step(2) [OF keys]] keys Cons(4) by simp
  qed
qed

section \<open>The table\<close>

definition permutes_list :: "('a list \<Rightarrow> 'a list) \<Rightarrow> bool" where
  "permutes_list ord \<longleftrightarrow> (\<forall>xs. mset (ord xs) = mset xs)"

text \<open>The counts in iteration order, and the ranges they give.\<close>

lemma ordered_counts:
  assumes ord: "permutes_list ord" and small: "length keys \<le> u32_max"
  shows "distinct (map fst (ord (count_keys keys [])))"
    and "map_of (ord (count_keys keys [])) k =
      (if count_list keys (Some k) = 0 then None else Some (count_list keys (Some k)))"
    and "sum_list (map snd (ord (count_keys keys []))) = length (filter (\<lambda>x. x \<noteq> None) keys)"
proof -
  let ?c = "count_keys keys []"
  have m: "mset (ord ?c) = mset ?c" using ord by (simp add: permutes_list_def)
  have d: "distinct (map fst ?c)" by (simp add: count_keys_distinct)
  then show "distinct (map fst (ord ?c))" using m by (metis mset_eq_imp_distinct_iff mset_map)
  show "map_of (ord ?c) k = (if count_list keys (Some k) = 0 then None else Some (count_list keys (Some k)))"
    using distinct_map_of_mset [OF m [symmetric] d] count_keys_lookup [of "[]" keys k] small by simp
  show "sum_list (map snd (ord ?c)) = length (filter (\<lambda>x. x \<noteq> None) keys)"
    using sum_list_map_mset [OF m, of snd] count_keys_sum [of "[]" keys] small by simp
qed

lemma ordered_total:
  assumes "permutes_list ord" and small: "length keys \<le> u32_max"
  shows "sum_list (map snd (ord (count_keys keys []))) \<le> u32_max"
  using ordered_counts(3) [OF assms] length_filter_le [of "\<lambda>x. x \<noteq> None" keys] small by linarith

lemma table_of_keys_exists:
  assumes ord: "permutes_list ord" and small: "length keys \<le> u32_max"
  shows "\<exists>rows. table_of_keys ord keys
      = Inr \<lparr>ranges = prefix_ranges (ord (count_keys keys [])) 0, jt_rows = rows\<rparr>
    \<and> length rows = length (filter (\<lambda>x. x \<noteq> None) keys)
    \<and> (\<forall>k s c t. map_of (prefix_ranges (ord (count_keys keys [])) 0) k = Some (s, c) \<longrightarrow> t < c
         \<longrightarrow> rows ! (s + t) = rows_with keys k ! t)"
proof -
  let ?cs = "ord (count_keys keys [])"
  let ?R = "prefix_ranges ?cs 0"
  let ?tot = "sum_list (map snd ?cs)"
  let ?start = "\<lambda>k. fst (the (map_of ?R k))"
  note counts = ordered_counts [OF ord small] and small_tot = ordered_total [OF ord small]
  have R: "map_of ?R k = Some (?start k, count_list keys (Some k))" if "Some k \<in> set keys" for k
  proof -
    have "k \<in> fst ` set ?R"
      using counts(2) [of k] count_list_pos [OF that] by (metis map_of_eq_None_iff not_less0 option.distinct(1) prefix_ranges_dom)
    then obtain s c where "map_of ?R k = Some (s, c)"
      by (metis map_of_eq_None_iff not_None_eq surj_pair)
    then show ?thesis using prefix_ranges_counts [of ?cs 0 k s c] counts(2) [of k]
      by (auto split: if_splits)
  qed
  have fits: "fits keys ?start ?tot"
    unfolding fits_def
  proof (intro conjI allI impI)
    fix k assume "Some k \<in> set keys"
    then show "?start k + count_list keys (Some k) \<le> ?tot"
      using prefix_ranges_bounds [of k _ _ ?cs 0] map_of_SomeD [OF R] by auto
  next
    fix k k' assume "Some k \<in> set keys" "Some k' \<in> set keys" "k \<noteq> k'"
    then show "?start k + count_list keys (Some k) \<le> ?start k' \<or> ?start k' + count_list keys (Some k') \<le> ?start k"
      using prefix_ranges_disjoint [OF counts(1), of k k' 0] R by metis
  qed
  have "map_of (map (\<lambda>(k, r). (k, fst r)) ?R) k = map_option fst (map_of ?R k)" for k
    by (simp add: map_of_map)
  then have P: "placed keys ?start [] (map (\<lambda>(k, r). (k, fst r)) ?R) (replicate ?tot 0)"
    using R by (auto simp: placed_def)
  obtain cur rows where rows: "scatter_rows 0 keys (map (\<lambda>(k, r). (k, fst r)) ?R) (replicate ?tot 0) = Inr rows"
      "placed keys ?start keys cur rows" "length rows = ?tot"
    using scatter_rows_placed [OF fits _ P _ small small_tot] by auto
  have "rows ! (s + t) = rows_with keys k ! t" if "map_of ?R k = Some (s, c)" "t < c" for k s c t
  proof -
    have "Some k \<in> set keys" using prefix_ranges_counts [OF that(1)] counts(2) [of k]
      by (auto split: if_splits simp: count_list_0_iff)
    then show ?thesis using rows(2) R [of k] that by (auto simp: placed_def)
  qed
  then show ?thesis
    using assign_ranges_prefix [OF counts(1), of "[]" 0] small_tot rows(1,3) counts(3)
    by (auto simp: table_of_keys_def)
qed

text \<open>The lookups of a table that was built: every row of the key, in row order.\<close>

lemma table_of_keys_spec:
  assumes "permutes_list ord" and "length keys \<le> u32_max"
  shows "\<exists>t. table_of_keys ord keys = Inr t \<and> (\<forall>k. table_matches t k = Inr (rows_with keys k))
    \<and> table_rows t = length (filter (\<lambda>x. x \<noteq> None) keys)
    \<and> distinct_keys t = card {k. Some k \<in> set keys}"
proof -
  let ?cs = "ord (count_keys keys [])"
  let ?R = "prefix_ranges ?cs 0"
  note counts = ordered_counts [OF assms]
  obtain rows where rows: "table_of_keys ord keys = Inr \<lparr>ranges = ?R, jt_rows = rows\<rparr>"
      "length rows = length (filter (\<lambda>x. x \<noteq> None) keys)"
      "\<And>k s c t. map_of ?R k = Some (s, c) \<Longrightarrow> t < c \<Longrightarrow> rows ! (s + t) = rows_with keys k ! t"
    using table_of_keys_exists [OF assms] by blast
  have "table_matches \<lparr>ranges = ?R, jt_rows = rows\<rparr> k = Inr (rows_with keys k)" for k
  proof (cases "map_of ?R k")
    case None
    then have "map_of ?cs k = None" by (metis map_of_eq_None_iff prefix_ranges_dom)
    then have "rows_with keys k = []" using counts(2) [of k]
      by (metis length_0_conv length_rows_with option.distinct(1))
    then show ?thesis using None by (simp add: table_matches_def)
  next
    case (Some r)
    then obtain s c where R: "map_of ?R k = Some (s, c)" by (cases r) auto
    have c: "c = length (rows_with keys k)"
      using prefix_ranges_counts [OF R] counts(2) [of k] by (simp add: length_rows_with split: if_splits)
    have le: "s + c \<le> length rows"
      using prefix_ranges_bounds [OF map_of_SomeD [OF R]] counts(3) rows(2) by simp
    then have "u32_add s c = s + c"
      using ordered_total [OF assms] counts(3) rows(2) by (simp add: u32_add_exact)
    moreover have "take c (drop s rows) = rows_with keys k"
      using le c rows(3) [OF R] by (intro nth_equalityI) auto
    ultimately show ?thesis using R le by (simp add: table_matches_def)
  qed
  moreover have "length ?R = card {k. Some k \<in> set keys}"
  proof -
    have "length ?R = card (fst ` set ?cs)"
      using distinct_card [OF counts(1)] by (metis length_map prefix_ranges_keys set_map)
    moreover have "k \<in> fst ` set ?cs \<longleftrightarrow> Some k \<in> set keys" for k
      using counts(2) [of k] map_of_eq_None_iff [of ?cs k] by (metis count_list_0_iff option.distinct(1))
    then have "fst ` set ?cs = {k. Some k \<in> set keys}" by blast
    ultimately show ?thesis by simp
  qed
  ultimately show ?thesis using rows(1,2) by (auto simp: table_rows_def distinct_keys_def)
qed

section \<open>The probe\<close>

text \<open>The reference join: every pair of rows in nested-loop order, kept when the keys match.\<close>

definition nested_loop :: "i64 option list \<Rightarrow> i64 option list \<Rightarrow> (nat \<times> nat) list" where
  "nested_loop lk rk = filter (\<lambda>(i, j). lk ! i \<noteq> None \<and> lk ! i = rk ! j)
     (List.product [0..<length lk] [0..<length rk])"

definition pairs_of :: "nat \<Rightarrow> i64 option \<Rightarrow> i64 option list \<Rightarrow> (nat \<times> nat) list" where
  "pairs_of i x rk = (case x of None \<Rightarrow> [] | Some k \<Rightarrow> map (Pair i) (rows_with rk k))"

fun pairs_from :: "nat \<Rightarrow> i64 option list \<Rightarrow> i64 option list \<Rightarrow> (nat \<times> nat) list" where
  "pairs_from i [] rk = []"
| "pairs_from i (x # ks) rk = pairs_of i x rk @ pairs_from (Suc i) ks rk"

lemma pairs_of_filter:
  "pairs_of i x rk = filter (\<lambda>(_, j). x \<noteq> None \<and> x = rk ! j) (map (Pair i) [0..<length rk])"
proof (cases x)
  case (Some k)
  have "(\<lambda>j. rk ! j = Some k) = (\<lambda>j. Some k = rk ! j)" by auto
  then show ?thesis using Some by (simp add: pairs_of_def rows_with_def filter_map comp_def)
qed (simp add: pairs_of_def)

lemma pairs_from_filter:
  assumes "i + length ks = length lk" and "drop i lk = ks"
  shows "pairs_from i ks rk = filter (\<lambda>(i, j). lk ! i \<noteq> None \<and> lk ! i = rk ! j)
     (List.product [i..<length lk] [0..<length rk])"
  using assms
proof (induction i ks rk rule: pairs_from.induct)
  case (2 i x ks rk)
  have x: "lk ! i = x" using 2(2,3) by (metis Cons_nth_drop_Suc drop_eq_Nil linorder_not_less list.distinct(1) list.inject)
  have "drop (Suc i) lk = ks" using 2(3) by (metis drop_Suc list.sel(3) tl_drop)
  then have IH: "pairs_from (Suc i) ks rk = filter (\<lambda>(i, j). lk ! i \<noteq> None \<and> lk ! i = rk ! j)
     (List.product [Suc i..<length lk] [0..<length rk])"
    using 2(1,2) by simp
  have "[i..<length lk] = i # [Suc i..<length lk]" using 2(2) by (simp add: upt_conv_Cons)
  moreover have "filter (\<lambda>(i, j). lk ! i \<noteq> None \<and> lk ! i = rk ! j) (map (Pair i) [0..<length rk])
      = pairs_of i x rk"
    unfolding pairs_of_filter using x by (intro filter_cong) auto
  ultimately show ?case using IH by simp
qed simp

lemma pairs_from_nested_loop: "pairs_from 0 lk rk = nested_loop lk rk"
  by (simp add: pairs_from_filter nested_loop_def)

lemma nested_loop_less: "(i, j) \<in> set (nested_loop lk rk) \<Longrightarrow> i < length lk \<and> j < length rk"
  by (auto simp: nested_loop_def)

lemma probe_rows_pairs:
  assumes "\<forall>k. table_matches t k = Inr (rows_with rk k)" and "i + length ks \<le> Suc u32_max"
  shows "probe_rows t i ks l r
    = Inr (l @ map fst (pairs_from i ks rk), r @ map snd (pairs_from i ks rk))"
  using assms(2)
proof (induction ks arbitrary: i l r)
  case (Cons x ks)
  show ?case
  proof (cases x)
    case None
    then show ?thesis using Cons by (simp add: pairs_of_def)
  next
    case (Some k)
    have "index_u32 i = Inr i" using Cons(2) by (simp add: index_u32_def)
    moreover have "map (fst \<circ> Pair i) (rows_with rk k) = replicate (length (rows_with rk k)) i"
      by (simp add: comp_def map_replicate_const)
    moreover have "map (snd \<circ> Pair i) (rows_with rk k) = rows_with rk k" by (simp add: comp_def)
    ultimately show ?thesis using Cons Some assms(1) by (simp add: pairs_of_def)
  qed
qed simp

lemma probe_nested_loop:
  assumes "\<forall>k. table_matches t k = Inr (rows_with rk k)" and "length lk \<le> Suc u32_max"
  shows "probe_rows t 0 lk [] [] = Inr (map fst (nested_loop lk rk), map snd (nested_loop lk rk))"
  using probe_rows_pairs [OF assms(1), of 0 lk "[]" "[]"] assms(2) by (simp add: pairs_from_nested_loop)

section \<open>The join\<close>

definition joined_batch :: "batch \<Rightarrow> batch \<Rightarrow> (nat \<times> nat) list \<Rightarrow> nat list \<Rightarrow> batch" where
  "joined_batch left right pairs sel = \<lparr>schema = map ((!) (schema left @ schema right)) sel,
     columns = map ((!) (map (take_array (map fst pairs)) (columns left)
                       @ map (take_array (map snd pairs)) (columns right))) sel,
     num_rows = length pairs\<rparr>"

text \<open>A batch with an \<open>Int64\<close> key column and the keys it holds.\<close>

definition key_column :: "batch \<Rightarrow> nat \<Rightarrow> i64 option list \<Rightarrow> bool" where
  "key_column b k keys \<longleftrightarrow> k < length (columns b) \<and> as_int64 (columns b ! k) = Some keys"

lemma int64_column_key: "key_column b k keys \<Longrightarrow> int64_column b k role = Inr keys"
  by (simp add: int64_column_def get_column_def key_column_def)

lemma key_column_length: "batch_ok b \<Longrightarrow> key_column b k keys \<Longrightarrow> length keys = num_rows b"
  by (auto simp: key_column_def as_int64_def batch_ok_rows split: if_splits)

lemma take_array_fits:
  assumes "column_fits n f a" and "\<forall>j \<in> set js. j < n"
  shows "column_fits (length js) f (take_array js a)"
  using assms by (auto simp: column_fits_def take_array_def) (metis nth_mem)

lemma joined_batch_fits:
  assumes "batch_ok left" and "batch_ok right"
    and "\<forall>(i, j) \<in> set pairs. i < num_rows left \<and> j < num_rows right"
    and "\<forall>j \<in> set sel. j < length (columns left) + length (columns right)"
  shows "columns_fit (length pairs) (schema (joined_batch left right pairs sel))
    (columns (joined_batch left right pairs sel))"
proof -
  have "column_fits (length pairs) ((schema left @ schema right) ! j)
      ((map (take_array (map fst pairs)) (columns left) @ map (take_array (map snd pairs)) (columns right)) ! j)"
    if "j < length (columns left) + length (columns right)" for j
  proof (cases "j < length (columns left)")
    case True
    have "\<forall>x \<in> set (map fst pairs). x < num_rows left" using assms(3) by auto
    from take_array_fits [OF batch_ok_nth(1) [OF assms(1) True] this] show ?thesis
      using True batch_ok_length [OF assms(1)] by (simp add: nth_append)
  next
    case False
    then have j: "j - length (columns left) < length (columns right)" using that by linarith
    have "\<forall>x \<in> set (map snd pairs). x < num_rows right" using assms(3) by auto
    from take_array_fits [OF batch_ok_nth(1) [OF assms(2) j] this] show ?thesis
      using False j batch_ok_length [OF assms(1)] by (simp add: nth_append)
  qed
  then show ?thesis using assms(4)
    by (auto simp: joined_batch_def columns_fit_def list_all2_conv_all_nth)
qed

definition join_selection :: "batch \<Rightarrow> batch \<Rightarrow> nat list option \<Rightarrow> nat list" where
  "join_selection left right projection = (case projection of Some indices \<Rightarrow> indices
     | None \<Rightarrow> [0..<length (schema left) + length (schema right)])"

context arrow_compute
begin

lemma join_column_take:
  assumes "batch_ok left" and "batch_ok right"
    and "\<forall>(i, j) \<in> set pairs. i < num_rows left \<and> j < num_rows right"
    and "index < length (columns left) + length (columns right)"
  shows "join_column A left right (map fst pairs) (map snd pairs) index
    = Inr ((schema left @ schema right) ! index,
           (map (take_array (map fst pairs)) (columns left) @ map (take_array (map snd pairs)) (columns right)) ! index)"
proof (cases "index < length (columns left)")
  case True
  have "a_take A (columns left ! index) (map fst pairs) = Inr (take_array (map fst pairs) (columns left ! index))"
    using assms(3) batch_ok_rows [OF assms(1) True] by (intro take_eq) auto
  then show ?thesis using True batch_ok_length [OF assms(1)] by (simp add: join_column_def nth_append)
next
  case False
  let ?i = "index - length (columns left)"
  have i: "?i < length (columns right)" using False assms(4) by linarith
  have "a_take A (columns right ! ?i) (map snd pairs) = Inr (take_array (map snd pairs) (columns right ! ?i))"
    using assms(3) batch_ok_rows [OF assms(2) i] by (intro take_eq) auto
  moreover have "index < length (schema left @ schema right)"
    using assms(4) batch_ok_length [OF assms(1)] batch_ok_length [OF assms(2)] by simp
  ultimately show ?thesis using False i by (simp add: join_column_def nth_append)
qed

lemma hash_join_probe_rows:
  assumes "batch_ok left" and "batch_ok right"
    and "key_column left lkey lk" and "key_column right rkey rk"
    and "\<forall>k. table_matches t k = Inr (rows_with rk k)" and "num_rows left \<le> Suc u32_max"
    and "join_selection left right projection \<noteq> []"
    and "\<forall>j \<in> set (join_selection left right projection). j < length (columns left) + length (columns right)"
  shows "hash_join_probe A left lkey right t projection
    = Inr (joined_batch left right (nested_loop lk rk) (join_selection left right projection))"
proof -
  let ?P = "nested_loop lk rk" and ?sel = "join_selection left right projection"
  let ?F = "(!) (schema left @ schema right)"
  let ?C = "(!) (map (take_array (map fst ?P)) (columns left) @ map (take_array (map snd ?P)) (columns right))"
  have in_range: "\<forall>(i, j) \<in> set ?P. i < num_rows left \<and> j < num_rows right"
    using nested_loop_less key_column_length assms(1-4) by fastforce
  have "probe_rows t 0 lk [] [] = Inr (map fst ?P, map snd ?P)"
    using probe_nested_loop [OF assms(5)] key_column_length [OF assms(1,3)] assms(6) by simp
  moreover have "collect_res (join_column A left right (map fst ?P) (map snd ?P)) ?sel
      = Inr (map (\<lambda>i. (?F i, ?C i)) ?sel)"
    using join_column_take [OF assms(1,2) in_range] assms(8) by (intro collect_res_map) auto
  moreover have "a_try_new A (map ?F ?sel) (map ?C ?sel) = Inr (joined_batch left right ?P ?sel)"
  proof -
    have fit: "columns_fit (length ?P) (map ?F ?sel) (map ?C ?sel)"
      using joined_batch_fits [OF assms(1,2) in_range assms(8)] by (simp add: joined_batch_def)
    then have "new_rows (map ?C ?sel) = length ?P"
      using assms(7) by (cases ?sel) (auto simp: new_rows_def columns_fit_def column_fits_def)
    then show ?thesis using try_new_ok [of "map ?C ?sel" "map ?F ?sel"] fit assms(7)
      by (simp add: joined_batch_def)
  qed
  moreover have "(case projection of None \<Rightarrow> [0..<length (schema left @ schema right)] | Some is \<Rightarrow> is) = ?sel"
    by (simp add: join_selection_def split: option.splits)
  ultimately show ?thesis
    by (simp add: hash_join_probe_def int64_column_key [OF assms(3)] comp_def)
qed

lemma hash_join_rows:
  assumes "permutes_list ord" and "batch_ok left" and "batch_ok right"
    and "key_column left lkey lk" and "key_column right rkey rk"
    and "num_rows left \<le> Suc u32_max" and "num_rows right \<le> u32_max"
  shows "hash_join ord A left right lkey rkey
    = Inr (joined_batch left right (nested_loop lk rk) [0..<length (columns left) + length (columns right)])"
proof -
  have len: "length (schema left) = length (columns left)" "length (schema right) = length (columns right)"
    using assms(2,3) by (simp_all add: batch_ok_length)
  obtain t where t: "table_of_keys ord rk = Inr t" "\<forall>k. table_matches t k = Inr (rows_with rk k)"
    using table_of_keys_spec [OF assms(1), of rk] key_column_length [OF assms(3,5)] assms(7) by auto
  have "0 < length (columns left)" using assms(4) by (auto simp: key_column_def)
  then have "hash_join_probe A left lkey right t None
    = Inr (joined_batch left right (nested_loop lk rk) [0..<length (columns left) + length (columns right)])"
    using hash_join_probe_rows [OF assms(2-5) t(2) assms(6), of None] len by (simp add: join_selection_def)
  then show ?thesis using t(1) int64_column_key [OF assms(5)] by (simp add: hash_join_def table_build_def)
qed

end

section \<open>The hash of a key\<close>

lemma xorshift_inj:
  fixes a b :: "64 word"
  assumes "a XOR drop_bit n a = b XOR drop_bit n b" and "0 < n"
  shows "a = b"
proof (rule bit_eqI)
  have step: "bit a i \<noteq> bit a (n + i) \<longleftrightarrow> bit b i \<noteq> bit b (n + i)" for i
    using arg_cong [OF assms(1), of "\<lambda>w. bit w i"] by (simp add: bit_xor_iff bit_drop_bit_eq)
  fix m :: nat
  show "bit a m = bit b m"
  proof (induction "64 - m" arbitrary: m rule: less_induct)
    case less
    show ?case
    proof (cases "m < 64")
      case True
      then have "bit a (n + m) = bit b (n + m)" using less assms(2) by simp
      then show ?thesis using step [of m] by blast
    next
      case False
      then show ?thesis using bit_imp_le_length [of a m] bit_imp_le_length [of b m] by auto
    qed
  qed
qed

lemma odd_mult_inj:
  fixes a b c d :: "64 word"
  assumes "a * c = b * c" and "c * d = 1"
  shows "a = b"
proof -
  have "a = a * c * d" "b = b * c * d" using assms(2) by (simp_all add: mult.assoc)
  then show ?thesis using assms(1) by simp
qed

lemma finish_multipliers_odd:
  "0xBF58476D1CE4E5B9 * 0x96DE1B173F119089 = (1 :: 64 word)"
  "0x94D049BB133111EB * 0x319642B2D24D8EC3 = (1 :: 64 word)"
  by simp_all

lemma hasher_finish_inj:
  assumes "hasher_finish a = hasher_finish b"
  shows "a = b"
proof -
  let ?f = "\<lambda>z :: 64 word. (z XOR drop_bit 30 z) * 0xBF58476D1CE4E5B9"
  let ?g = "\<lambda>z :: 64 word. (z XOR drop_bit 27 z) * 0x94D049BB133111EB"
  have "?g (?f a) = ?g (?f b)"
    using assms unfolding hasher_finish_def Let_def by (rule xorshift_inj) simp
  then have "?f a XOR drop_bit 27 (?f a) = ?f b XOR drop_bit 27 (?f b)"
    by (rule odd_mult_inj [OF _ finish_multipliers_odd(2)])
  then have "?f a = ?f b" by (rule xorshift_inj) simp
  then have "a XOR drop_bit 30 a = b XOR drop_bit 30 b"
    by (rule odd_mult_inj [OF _ finish_multipliers_odd(1)])
  then show ?thesis by (rule xorshift_inj) simp
qed

lemma key_hash_eq: "key_hash a = key_hash b \<longleftrightarrow> a = b"
  by (auto simp: key_hash_def hasher_write_i64_def dest: hasher_finish_inj)

section \<open>Properties\<close>

text \<open>
  C2: The hash join equals the nested-loop join: whatever order the hash map of the build side
  iterates in, the output holds the left and then the right columns for every pair of rows whose
  keys are equal and not \<open>NULL\<close>, in left-row order and for each left row in right-row order.
\<close>

theorem hash_join_nested_loop:
  assumes "arrow_compute A" and "permutes_list ord" and "batch_ok left" and "batch_ok right"
    and "key_column left lkey lk" and "key_column right rkey rk"
    and "num_rows left \<le> Suc u32_max" and "num_rows right \<le> u32_max"
  shows "hash_join ord A left right lkey rkey
    = Inr (joined_batch left right (nested_loop lk rk) [0..<length (columns left) + length (columns right)])"
  using arrow_compute.hash_join_rows [OF assms] .

theorem hash_join_nested_loop_witness:
  "hash_join rev arrow_ref
     \<lparr>schema = [Field ''a'' Int64 True], columns = [int64_array [Some 7, None, Some 4, Some 7]], num_rows = 4\<rparr>
     \<lparr>schema = [Field ''b'' Int64 True], columns = [int64_array [Some 4, Some 7, None, Some 7]], num_rows = 4\<rparr> 0 0
   = Inr \<lparr>schema = [Field ''a'' Int64 True, Field ''b'' Int64 True],
          columns = [int64_array [Some 7, Some 7, Some 4, Some 7, Some 7],
                     int64_array [Some 7, Some 7, Some 4, Some 7, Some 7]], num_rows = 5\<rparr>"
  using hash_join_nested_loop [OF aref.arrow_compute_axioms, of rev
     "\<lparr>schema = [Field ''a'' Int64 True], columns = [int64_array [Some 7, None, Some 4, Some 7]], num_rows = 4\<rparr>"
     "\<lparr>schema = [Field ''b'' Int64 True], columns = [int64_array [Some 4, Some 7, None, Some 7]], num_rows = 4\<rparr>"
     0 "[Some 7, None, Some 4, Some 7]" 0 "[Some 4, Some 7, None, Some 7]"]
  by (simp add: permutes_list_def batch_ok_def columns_fit_def column_fits_def array_ok_def key_column_def
      as_int64_def int64_array_def u32_max_def joined_batch_def nested_loop_def take_array_def upt_rec)

text \<open>
  C4: The join table is complete and ordered: built from a key column with fewer than \<open>2^32\<close> rows,
  in any iteration order of the hash map, it returns for every key exactly the rows that hold the
  key, in row order; it stores one row number per non-\<open>NULL\<close> key and one range per distinct key.
\<close>

theorem join_table_complete:
  assumes "permutes_list ord" and "length keys \<le> u32_max"
  shows "\<exists>t. table_of_keys ord keys = Inr t \<and> (\<forall>k. table_matches t k = Inr (rows_with keys k))
    \<and> table_rows t = length (filter (\<lambda>x. x \<noteq> None) keys)
    \<and> distinct_keys t = card {k. Some k \<in> set keys}"
  using table_of_keys_spec [OF assms] .

theorem join_table_complete_witness:
  "\<exists>t. table_of_keys rev [Some 4, None, Some 9, Some 4] = Inr t \<and> table_matches t 4 = Inr [0, 3]
    \<and> table_matches t 9 = Inr [2] \<and> table_matches t 5 = Inr [] \<and> table_rows t = 3"
  using join_table_complete [of rev "[Some 4, None, Some 9, Some 4]"]
  by (auto simp: permutes_list_def u32_max_def rows_with_def upt_rec)

text \<open>
  C8: The key hasher maps distinct \<open>Int64\<close> keys to distinct 64-bit hashes: both multipliers are odd
  and every shift-xor is invertible, so two keys never share a hash.
\<close>

theorem key_hash_injective: "key_hash a = key_hash b \<longleftrightarrow> a = b"
  by (rule key_hash_eq)

end
