(* ===== verification/Cpu_Aggregate.thy ===== *)
theory Cpu_Aggregate
  imports Join_Table
begin

text \<open>
  Grouped aggregation and vector distance of the CPU kernels
  (\<open>crates/oxidelake-device/src/cpu/kernels.rs\<close>, from \<open>index_u32\<close> on).

  The running sum of an integer column is an \<open>i128\<close> in the source; no batch has enough rows to leave
  its range, so it is an \<open>int\<close>.  \<open>group_values\<close> and \<open>aggregate_column\<close> say what each output column
  holds, without accumulators; the kernel is shown to compute them.
\<close>

section \<open>Accumulators\<close>

datatype acc = AccI i64 int i64 i64 | AccF i64 f64 f64 f64

datatype agg_input = InI "i64 option list" | InF "f64 option list"

definition i64_MAX :: i64 where "i64_MAX = 0x7FFFFFFFFFFFFFFF"
definition i64_MIN :: i64 where "i64_MIN = 0x8000000000000000"

definition i64_min :: "i64 \<Rightarrow> i64 \<Rightarrow> i64" where
  "i64_min a b = (if sint b < sint a then b else a)"
definition i64_max :: "i64 \<Rightarrow> i64 \<Rightarrow> i64" where
  "i64_max a b = (if sint b < sint a then a else b)"

definition i64_try_from :: "int \<Rightarrow> i64 option" where
  "i64_try_from n = (if - (2 ^ 63) \<le> n \<and> n < 2 ^ 63 then Some (word_of_int n) else None)"

definition agg_type_error :: "nat \<Rightarrow> data_type \<Rightarrow> fault" where
  "agg_type_error index dt = Err (Unsupported ''cpu.aggregate'' [Txt ''aggregate input column '', Num index,
     Txt '' has type '', Ty dt, Txt ''; v1 supports Int64 and Float64''])"

definition acc_for_type :: "data_type \<Rightarrow> nat \<Rightarrow> acc result" where
  "acc_for_type dt index =
    (if dt = Int64 then Inr (AccI 0 0 i64_MAX i64_MIN)
     else if dt = Float64 then Inr (AccF 0 f64_zero f64_infinity f64_neg_infinity)
     else Inl (agg_type_error index dt))"

definition agg_input_of :: "batch \<Rightarrow> nat \<Rightarrow> agg_input result" where
  "agg_input_of b idx = and_then (get_column b idx) (\<lambda>col.
     ok_or (if arr_type col = Int64 then map_option InI (as_int64 col)
            else if arr_type col = Float64 then map_option InF (as_float64 col) else None)
       (agg_type_error idx (arr_type col)))"

fun input_type :: "agg_input \<Rightarrow> data_type" where
  "input_type (InI _) = Int64"
| "input_type (InF _) = Float64"

fun acc_step :: "nat \<Rightarrow> acc \<Rightarrow> agg_input \<Rightarrow> acc" where
  "acc_step row (AccI cnt sm mn mx) (InI arr) =
     (case arr ! row of Some v \<Rightarrow> AccI (cnt + 1) (sm + sint v) (i64_min mn v) (i64_max mx v)
      | None \<Rightarrow> AccI cnt sm mn mx)"
| "acc_step row (AccF cnt sm mn mx) (InF arr) =
     (case arr ! row of Some v \<Rightarrow> AccF (cnt + 1) (f64_add sm v) (f64_min mn v) (f64_max mx v)
      | None \<Rightarrow> AccF cnt sm mn mx)"
| "acc_step row a _ = a"

fun acc_count :: "acc \<Rightarrow> i64" where
  "acc_count (AccI cnt _ _ _) = cnt"
| "acc_count (AccF cnt _ _ _) = cnt"

section \<open>The kernel\<close>

record agg_state =
  group_index :: "(i64 option \<times> nat) list"
  group_keys :: "i64 option list"
  accs :: "acc list list"

definition find_group :: "aggregate_spec \<Rightarrow> agg_input list \<Rightarrow> i64 option \<Rightarrow> agg_state
    \<Rightarrow> (nat \<times> agg_state) result" where
  "find_group spec inputs key st = (case map_of (group_index st) key of
      Some g \<Rightarrow> Inr (g, st)
    | None \<Rightarrow> and_then (collect_res (\<lambda>(input, (_, idx)). acc_for_type (input_type input) idx)
                  (zip inputs (aggregates spec)))
        (\<lambda>fresh. let n = length (group_keys st) in
           Inr (n, \<lparr>group_index = AList.update key n (group_index st),
                    group_keys = group_keys st @ [key], accs = accs st @ [fresh]\<rparr>)))"

definition agg_row :: "aggregate_spec \<Rightarrow> agg_input list \<Rightarrow> i64 option list \<Rightarrow> nat \<Rightarrow> agg_state
    \<Rightarrow> agg_state result" where
  "agg_row spec inputs keys row st =
     and_then (find_group spec inputs (keys ! row) st) (\<lambda>(group, st).
     Inr (st\<lparr>accs := (accs st)[group := map2 (acc_step row) (accs st ! group) inputs]\<rparr>))"

text \<open>The rank by which the groups are sorted: the key, and \<open>NULL\<close> behind every key.\<close>

definition key_rank :: "i64 option \<Rightarrow> int" where
  "key_rank k = (case k of Some v \<Rightarrow> sint v | None \<Rightarrow> 2 ^ 63)"

definition count_positive :: "i64 \<Rightarrow> bool" where
  "count_positive c = (0 < sint c)"

fun sum_cell :: "acc \<Rightarrow> i64 option result" where
  "sum_cell (AccI cnt sm _ _) =
     (if count_positive cnt
      then map_res Some (ok_or (i64_try_from sm) (Err (Execution [Txt ''SUM overflowed Int64''])))
      else Inr None)"
| "sum_cell _ = Inr None"

fun float_sum_cell :: "acc \<Rightarrow> f64 option" where
  "float_sum_cell (AccF cnt sm _ _) = (if count_positive cnt then Some sm else None)"
| "float_sum_cell _ = None"

fun extremum_cell :: "aggregate_function \<Rightarrow> acc \<Rightarrow> i64 option" where
  "extremum_cell f (AccI cnt _ mn mx) =
     (if count_positive cnt then Some (if f = AggMin then mn else mx) else None)"
| "extremum_cell f _ = None"

fun float_extremum_cell :: "aggregate_function \<Rightarrow> acc \<Rightarrow> f64 option" where
  "float_extremum_cell f (AccF cnt _ mn mx) =
     (if count_positive cnt then Some (if f = AggMin then mn else mx) else None)"
| "float_extremum_cell f _ = None"

fun agg_output :: "aggregate_function \<Rightarrow> agg_input \<Rightarrow> acc list \<Rightarrow> (data_type \<times> array) result" where
  "agg_output AggCount _ as = Inr (Int64, int64_array (map (\<lambda>a. Some (acc_count a)) as))"
| "agg_output AggSum (InI _) as = map_res (\<lambda>out. (Int64, int64_array out)) (collect_res sum_cell as)"
| "agg_output AggSum (InF _) as = Inr (Float64, float64_array (map float_sum_cell as))"
| "agg_output f (InI _) as = Inr (Int64, int64_array (map (extremum_cell f) as))"
| "agg_output f (InF _) as = Inr (Float64, float64_array (map (float_extremum_cell f) as))"

definition aggregate_name :: "batch \<Rightarrow> aggregate_function \<Rightarrow> nat \<Rightarrow> string" where
  "aggregate_name b f idx = agg_name f @ ''('' @ field_name (schema b ! idx) @ '')''"

definition agg_field_column :: "batch \<Rightarrow> agg_state \<Rightarrow> nat list
    \<Rightarrow> (nat \<times> agg_input \<times> aggregate_function \<times> nat) \<Rightarrow> (field \<times> array) result" where
  "agg_field_column b st order = (\<lambda>(a, input, f, idx).
     map_res (\<lambda>(dt, arr). (Field (aggregate_name b f idx) dt True, arr))
       (agg_output f input (map (\<lambda>g. accs st ! g ! a) order)))"

definition aggregate :: "arrow_ops \<Rightarrow> batch \<Rightarrow> aggregate_spec \<Rightarrow> batch result" where
  "aggregate A b spec =
     and_then (int64_column b (group_by spec) ''group key'') (\<lambda>keys.
     and_then (collect_res (\<lambda>(_, idx). agg_input_of b idx) (aggregates spec)) (\<lambda>inputs.
     and_then (fold_res (agg_row spec inputs keys) [0..<num_rows b]
                 \<lparr>group_index = [], group_keys = [], accs = []\<rparr>) (\<lambda>st.
     let order = sort_key (\<lambda>g. key_rank (group_keys st ! g)) [0..<length (group_keys st)] in
     and_then (collect_res (agg_field_column b st order)
                 (zip [0..<length inputs] (zip inputs (aggregates spec)))) (\<lambda>cols.
     lift_arrow (a_try_new A
       (Field (field_name (schema b ! group_by spec)) Int64 True # map fst cols)
       (int64_array (map ((!) (group_keys st)) order) # map snd cols))))))"

section \<open>Vector distance\<close>

definition l2 :: "f32 list \<Rightarrow> f32 list \<Rightarrow> f32" where
  "l2 a b = f32_sqrt (f32_sum (map2 (\<lambda>x y. f32_mul (f32_sub x y) (f32_sub x y)) a b))"

definition cosine :: "f32 list \<Rightarrow> f32 list \<Rightarrow> f32" where
  "cosine a b =
    (let dot = f32_sum (map2 f32_mul a b);
         na = f32_sqrt (f32_sum (map (\<lambda>x. f32_mul x x) a));
         nb = f32_sqrt (f32_sum (map (\<lambda>y. f32_mul y y) b)) in
     if f32_is_zero na \<or> f32_is_zero nb then f32_nan
     else f32_sub f32_one (f32_div dot (f32_mul na nb)))"

fun distance :: "distance_metric \<Rightarrow> f32 list \<Rightarrow> f32 list \<Rightarrow> f32" where
  "distance L2 v query = l2 v query"
| "distance Cosine v query = cosine v query"

definition vector_distance :: "arrow_ops \<Rightarrow> batch \<Rightarrow> nat \<Rightarrow> f32 list \<Rightarrow> distance_metric \<Rightarrow> string
    \<Rightarrow> batch result" where
  "vector_distance A b column_index query metric output_name =
     and_then (get_column b column_index) (\<lambda>col.
     case arr_type col of
       FixedSizeList f n \<Rightarrow>
         if field_type f \<noteq> Float32
         then fail (Unsupported ''cpu.vector_distance'' [Txt ''vector element type is '', Ty (field_type f),
                Txt ''; expected Float32''])
         else if n < 0 then fail (Plan [Txt ''negative list size''])
         else if length query \<noteq> nat n
         then fail (Plan [Txt ''query vector has '', Num (length query), Txt '' dimensions but the column has '',
                Num (nat n)])
         else lift_arrow (a_try_new A (schema b @ [Field output_name Float32 True])
                (columns b @ [float32_array
                   (map (map_option (\<lambda>c. distance metric (cell_vec c) query)) (cells col))]))
     | _ \<Rightarrow> fail (Unsupported ''cpu.vector_distance'' [Txt ''column '', Num column_index, Txt '' has type '',
             Ty (arr_type col), Txt ''; expected FixedSizeList<Float32>'']))"

section \<open>What the aggregates are\<close>

definition group_rows :: "i64 option list \<Rightarrow> i64 option \<Rightarrow> nat list" where
  "group_rows keys k = filter (\<lambda>r. keys ! r = k) [0..<length keys]"

definition group_values :: "'a option list \<Rightarrow> nat list \<Rightarrow> 'a list" where
  "group_values arr rows = List.map_filter ((!) arr) rows"

definition sum_or_overflow :: "i64 list \<Rightarrow> i64 option result" where
  "sum_or_overflow vs = (let n = sum_list (map sint vs) in
     if vs = [] then Inr None
     else if - (2 ^ 63) \<le> n \<and> n < 2 ^ 63 then Inr (Some (word_of_int n))
     else fail (Execution [Txt ''SUM overflowed Int64'']))"

fun aggregate_column :: "aggregate_function \<Rightarrow> agg_input \<Rightarrow> nat list list \<Rightarrow> (data_type \<times> array) result" where
  "aggregate_column AggCount (InI arr) gs =
     Inr (Int64, int64_array (map (\<lambda>g. Some (of_nat (length (group_values arr g)))) gs))"
| "aggregate_column AggCount (InF arr) gs =
     Inr (Int64, int64_array (map (\<lambda>g. Some (of_nat (length (group_values arr g)))) gs))"
| "aggregate_column AggSum (InI arr) gs =
     map_res (\<lambda>out. (Int64, int64_array out)) (collect_res (\<lambda>g. sum_or_overflow (group_values arr g)) gs)"
| "aggregate_column AggSum (InF arr) gs =
     Inr (Float64, float64_array (map (\<lambda>g. let vs = group_values arr g in
       if vs = [] then None else Some (foldl f64_add f64_zero vs)) gs))"
| "aggregate_column AggMin (InI arr) gs =
     Inr (Int64, int64_array (map (\<lambda>g. let vs = group_values arr g in
       if vs = [] then None else Some (word_of_int (Min (set (map sint vs))))) gs))"
| "aggregate_column AggMax (InI arr) gs =
     Inr (Int64, int64_array (map (\<lambda>g. let vs = group_values arr g in
       if vs = [] then None else Some (word_of_int (Max (set (map sint vs))))) gs))"
| "aggregate_column AggMin (InF arr) gs =
     Inr (Float64, float64_array (map (\<lambda>g. let vs = group_values arr g in
       if vs = [] then None else Some (foldl f64_min f64_infinity vs)) gs))"
| "aggregate_column AggMax (InF arr) gs =
     Inr (Float64, float64_array (map (\<lambda>g. let vs = group_values arr g in
       if vs = [] then None else Some (foldl f64_max f64_neg_infinity vs)) gs))"

text \<open>The group keys of the output: the distinct keys in ascending order, \<open>NULL\<close> last.\<close>

definition sorted_keys :: "i64 option list \<Rightarrow> i64 option list" where
  "sorted_keys keys = sort_key key_rank (remdups keys)"

section \<open>Accumulators hold the aggregates\<close>

fun agg_acc :: "agg_input \<Rightarrow> nat list \<Rightarrow> acc" where
  "agg_acc (InI arr) rows = (let vs = group_values arr rows in
     AccI (of_nat (length vs)) (sum_list (map sint vs)) (foldl i64_min i64_MAX vs) (foldl i64_max i64_MIN vs))"
| "agg_acc (InF arr) rows = (let vs = group_values arr rows in
     AccF (of_nat (length vs)) (foldl f64_add f64_zero vs) (foldl f64_min f64_infinity vs)
       (foldl f64_max f64_neg_infinity vs))"

lemma group_values_snoc:
  "group_values arr (rows @ [r]) = group_values arr rows @ (case arr ! r of None \<Rightarrow> [] | Some v \<Rightarrow> [v])"
  by (simp add: group_values_def List.map_filter_def split: option.splits)

lemma agg_acc_snoc: "agg_acc input (rows @ [r]) = acc_step r (agg_acc input rows) input"
  by (cases input) (auto simp: group_values_snoc Let_def add.commute split: option.splits)

lemma agg_acc_Nil: "acc_for_type (input_type input) idx = Inr (agg_acc input [])"
  by (cases input) (simp_all add: acc_for_type_def group_values_def List.map_filter_def)

lemma count_positive_of_nat: "n < 2 ^ 63 \<Longrightarrow> count_positive (of_nat n) \<longleftrightarrow> 0 < n"
  by (simp add: count_positive_def sint_of_nat)

lemma sint_range: "- (2 ^ 63) \<le> sint (v :: i64)" "sint (v :: i64) < 2 ^ 63"
  using sint_ge [of v] sint_lt [of v] by simp_all

lemma word_of_sint: "word_of_int (sint (v :: i64)) = v"
  by (rule signed_word_eqI) (simp add: sint_sbintrunc' signed_take_bit_int_eq_self sint_range)

lemma foldl_i64_min: "sint (foldl i64_min m vs) = Min (set (map sint (m # vs)))"
proof (induction vs arbitrary: m)
  case (Cons v vs)
  have "sint (i64_min m v) = min (sint m) (sint v)" by (simp add: i64_min_def)
  then show ?case using Cons [of "i64_min m v"] by (cases "vs = []") (simp_all add: min.assoc)
qed simp

lemma foldl_i64_max: "sint (foldl i64_max m vs) = Max (set (map sint (m # vs)))"
proof (induction vs arbitrary: m)
  case (Cons v vs)
  have "sint (i64_max m v) = max (sint m) (sint v)" by (simp add: i64_max_def)
  then show ?case using Cons [of "i64_max m v"] by (cases "vs = []") (simp_all add: max.assoc)
qed simp

lemma foldl_min_start: "vs \<noteq> [] \<Longrightarrow> foldl i64_min i64_MAX vs = word_of_int (Min (set (map sint vs)))"
proof -
  assume vs: "vs \<noteq> []"
  have "sint i64_MAX = 2 ^ 63 - 1" by (simp add: i64_MAX_def)
  moreover have "Min (sint ` set vs) \<in> sint ` set vs" using vs by (intro Min_in) auto
  then have "Min (sint ` set vs) < 2 ^ 63" using sint_range by auto
  ultimately have "sint (foldl i64_min i64_MAX vs) = Min (set (map sint vs))"
    using vs by (simp add: foldl_i64_min min_absorb2)
  then show ?thesis by (metis word_of_sint)
qed

lemma foldl_max_start: "vs \<noteq> [] \<Longrightarrow> foldl i64_max i64_MIN vs = word_of_int (Max (set (map sint vs)))"
proof -
  assume vs: "vs \<noteq> []"
  have "sint i64_MIN = - (2 ^ 63)" by (simp add: i64_MIN_def)
  moreover have "Max (sint ` set vs) \<in> sint ` set vs" using vs by (intro Max_in) auto
  then have "- (2 ^ 63) \<le> Max (sint ` set vs)" using sint_range by auto
  ultimately have "sint (foldl i64_max i64_MIN vs) = Max (set (map sint vs))"
    using vs by (simp add: foldl_i64_max max_absorb2)
  then show ?thesis by (metis word_of_sint)
qed

lemma length_group_values: "length (group_values arr g) \<le> length g"
  by (simp add: group_values_def List.map_filter_def)

lemma sum_cell_acc:
  assumes "length g < 2 ^ 63"
  shows "sum_cell (agg_acc (InI arr) g) = sum_or_overflow (group_values arr g)"
  using count_positive_of_nat [of "length (group_values arr g)"] length_group_values [of arr g] assms
  by (auto simp: sum_or_overflow_def Let_def i64_try_from_def)

lemma agg_output_column:
  assumes "\<forall>g \<in> set gs. length g < 2 ^ 63"
  shows "agg_output f input (map (agg_acc input) gs) = aggregate_column f input gs"
proof -
  have pos: "count_positive (of_nat (length (group_values arr g))) \<longleftrightarrow> group_values arr g \<noteq> []"
    if "g \<in> set gs" for g :: "nat list" and arr :: "'x option list"
    using count_positive_of_nat [of "length (group_values arr g)"] length_group_values [of arr g] assms that
    by (auto simp: le_less_trans)
  have "collect_res sum_cell (map (agg_acc (InI arr)) gs)
      = collect_res (\<lambda>g. sum_or_overflow (group_values arr g)) gs" for arr
    using assms sum_cell_acc by (induction gs) auto
  then show ?thesis
    by (cases f; cases input)
      (auto simp: Let_def pos foldl_min_start foldl_max_start simp del: set_map
        intro!: arg_cong [where f = int64_array] arg_cong [where f = float64_array] map_cong)
qed

section \<open>The groups\<close>

definition first_seen :: "'a list \<Rightarrow> 'a list" where
  "first_seen xs = rev (remdups (rev xs))"

lemma first_seen_snoc: "first_seen (xs @ [x]) = (if x \<in> set xs then first_seen xs else first_seen xs @ [x])"
  by (simp add: first_seen_def)

lemma first_seen_props [simp]: "set (first_seen xs) = set xs" "distinct (first_seen xs)"
  by (simp_all add: first_seen_def)

lemma group_rows_snoc: "group_rows (xs @ [x]) k = group_rows xs k @ (if x = k then [length xs] else [])"
proof -
  have "filter (\<lambda>r. (xs @ [x]) ! r = k) [0..<length xs] = filter (\<lambda>r. xs ! r = k) [0..<length xs]"
    by (intro filter_cong) (auto simp: nth_append)
  then show ?thesis by (simp add: group_rows_def)
qed

lemma group_rows_absent: "k \<notin> set xs \<Longrightarrow> group_rows xs k = []"
  by (auto simp: group_rows_def filter_empty_conv)

definition agg_inv :: "agg_input list \<Rightarrow> i64 option list \<Rightarrow> agg_state \<Rightarrow> bool" where
  "agg_inv inputs seen st \<longleftrightarrow>
     group_keys st = first_seen seen \<and>
     (\<forall>k g. map_of (group_index st) k = Some g \<longleftrightarrow> g < length (group_keys st) \<and> group_keys st ! g = k) \<and>
     accs st = map (\<lambda>k. map (\<lambda>input. agg_acc input (group_rows seen k)) inputs) (group_keys st)"

lemma find_group_inv:
  assumes "agg_inv inputs seen st" and "length inputs = length (aggregates spec)"
  shows "\<exists>g st'. find_group spec inputs key st = Inr (g, st') \<and> g < length (group_keys st')
    \<and> group_keys st' ! g = key
    \<and> group_keys st' = first_seen (seen @ [key])
    \<and> (\<forall>k g. map_of (group_index st') k = Some g \<longleftrightarrow> g < length (group_keys st') \<and> group_keys st' ! g = k)
    \<and> accs st' = map (\<lambda>k. map (\<lambda>input. agg_acc input (group_rows seen k)) inputs) (group_keys st')"
proof (cases "map_of (group_index st) key")
  case None
  then have new: "key \<notin> set seen"
    using assms(1) unfolding agg_inv_def by (metis first_seen_props(1) in_set_conv_nth option.distinct(1))
  have "collect_res (\<lambda>(input, (_, idx)). acc_for_type (input_type input) idx) (zip inputs (aggregates spec))
      = Inr (map (\<lambda>(input, _). agg_acc input []) (zip inputs (aggregates spec)))"
    by (intro collect_res_map) (auto simp: agg_acc_Nil)
  also have "map (\<lambda>(input, _). agg_acc input []) (zip inputs (aggregates spec)) = map (\<lambda>input. agg_acc input []) inputs"
    using assms(2) by (metis (no_types, lifting) case_prod_beta comp_apply map_cong map_fst_zip map_map)
  finally have fresh: "collect_res (\<lambda>(input, (_, idx)). acc_for_type (input_type input) idx)
      (zip inputs (aggregates spec)) = Inr (map (\<lambda>input. agg_acc input []) inputs)" .
  let ?n = "length (first_seen seen)"
  have "map_of (AList.update key ?n (group_index st)) k = Some g
      \<longleftrightarrow> g < Suc ?n \<and> (first_seen seen @ [key]) ! g = k" for k g
    using assms(1) new nth_mem [of g "first_seen seen"]
    by (cases "g < ?n"; cases "k = key") (auto simp: agg_inv_def update_conv' nth_append)
  then show ?thesis using None assms(1) new fresh
    by (simp add: find_group_def agg_inv_def first_seen_snoc group_rows_absent Let_def)
next
  case (Some g)
  then have g: "g < length (group_keys st)" "group_keys st ! g = key" using assms(1) by (auto simp: agg_inv_def)
  then have "key \<in> set seen" using assms(1) unfolding agg_inv_def by (metis first_seen_props(1) nth_mem)
  moreover have "find_group spec inputs key st = Inr (g, st)" using Some by (simp add: find_group_def)
  ultimately show ?thesis using g assms(1)
    by (intro exI [of _ g] exI [of _ st]) (simp add: agg_inv_def first_seen_snoc)
qed

lemma agg_row_inv:
  assumes "agg_inv inputs seen st" and "length inputs = length (aggregates spec)"
    and "keys ! length seen = key"
  shows "\<exists>st'. agg_row spec inputs keys (length seen) st = Inr st' \<and> agg_inv inputs (seen @ [key]) st'"
proof -
  obtain g st1 where g: "find_group spec inputs key st = Inr (g, st1)" "g < length (group_keys st1)"
      "group_keys st1 ! g = key" "group_keys st1 = first_seen (seen @ [key])"
      "\<forall>k g. map_of (group_index st1) k = Some g \<longleftrightarrow> g < length (group_keys st1) \<and> group_keys st1 ! g = k"
      "accs st1 = map (\<lambda>k. map (\<lambda>input. agg_acc input (group_rows seen k)) inputs) (group_keys st1)"
    using find_group_inv [OF assms(1,2), of key] by blast
  let ?st = "st1\<lparr>accs := (accs st1)[g := map2 (acc_step (length seen)) (accs st1 ! g) inputs]\<rparr>"
  have new: "map2 (acc_step (length seen)) (accs st1 ! g) inputs
      = map (\<lambda>input. agg_acc input (group_rows (seen @ [key]) key)) inputs"
    using g(2,3,6) by (simp add: group_rows_snoc agg_acc_snoc zip_map1 zip_same_conv_map comp_def)
  have "accs ?st = map (\<lambda>k. map (\<lambda>input. agg_acc input (group_rows (seen @ [key]) k)) inputs) (group_keys st1)"
  proof (rule nth_equalityI)
    fix i assume i: "i < length (accs ?st)"
    then have i': "i < length (group_keys st1)" using g(6) by simp
    show "accs ?st ! i = map (\<lambda>k. map (\<lambda>input. agg_acc input (group_rows (seen @ [key]) k)) inputs) (group_keys st1) ! i"
    proof (cases "i = g")
      case True
      then show ?thesis using new i' g(3) g(6) by simp
    next
      case False
      then have "group_keys st1 ! i \<noteq> key"
        using g(2,3,4) i' nth_eq_iff_index_eq [of "group_keys st1" i g] by simp
      then show ?thesis using False i' g(6) by (simp add: group_rows_snoc)
    qed
  qed (use g(6) in simp)
  then have "agg_inv inputs (seen @ [key]) ?st" using g(4,5) by (simp add: agg_inv_def)
  then show ?thesis using g(1) assms(3) by (simp add: agg_row_def)
qed

lemma agg_rows_inv:
  assumes "length inputs = length (aggregates spec)" and "n \<le> length keys"
  shows "\<exists>st. fold_res (agg_row spec inputs keys) [0..<n] \<lparr>group_index = [], group_keys = [], accs = []\<rparr> = Inr st
    \<and> agg_inv inputs (take n keys) st"
  using assms(2)
proof (induction n)
  case 0
  show ?case by (simp add: agg_inv_def first_seen_def)
next
  case (Suc n)
  then obtain st where st: "fold_res (agg_row spec inputs keys) [0..<n] \<lparr>group_index = [], group_keys = [], accs = []\<rparr>
      = Inr st" "agg_inv inputs (take n keys) st" by auto
  obtain st' where "agg_row spec inputs keys n st = Inr st'" "agg_inv inputs (take n keys @ [keys ! n]) st'"
    using agg_row_inv [OF st(2) assms(1), of keys "keys ! n"] Suc.prems by auto
  then show ?case using st(1) Suc.prems by (simp add: fold_res_append take_Suc_conv_app_nth)
qed

section \<open>The result\<close>

definition input_at :: "batch \<Rightarrow> nat \<Rightarrow> agg_input" where
  "input_at b idx = (if arr_type (columns b ! idx) = Int64
     then InI (map (map_option cell_i64) (cells (columns b ! idx)))
     else InF (map (map_option cell_f64) (cells (columns b ! idx))))"

definition aggregable :: "batch \<Rightarrow> aggregate_spec \<Rightarrow> bool" where
  "aggregable b spec = list_all (\<lambda>(f, idx). idx < length (columns b) \<and>
     gpu_eligible_scalar (arr_type (columns b ! idx))) (aggregates spec)"

definition aggregate_result :: "batch \<Rightarrow> i64 option list \<Rightarrow> aggregate_spec \<Rightarrow> batch result" where
  "aggregate_result b keys spec =
     and_then (collect_res (\<lambda>(f, idx). map_res (\<lambda>(dt, arr). (Field (aggregate_name b f idx) dt True, arr))
         (aggregate_column f (input_at b idx) (map (group_rows keys) (sorted_keys keys)))) (aggregates spec))
       (\<lambda>cols. Inr \<lparr>schema = Field (field_name (schema b ! group_by spec)) Int64 True # map fst cols,
                    columns = int64_array (sorted_keys keys) # map snd cols,
                    num_rows = length (sorted_keys keys)\<rparr>)"

lemma map_insort_key: "map f (insort_key (\<lambda>x. g (f x)) x xs) = insort_key g (f x) (map f xs)"
  by (induction xs) auto

lemma map_sort_key: "map f (sort_key (\<lambda>x. g (f x)) xs) = sort_key g (map f xs)"
  by (induction xs) (simp_all add: map_insort_key)

lemma key_rank_inj: "inj key_rank"
proof (rule injI)
  fix x y :: "i64 option"
  assume eq: "key_rank x = key_rank y"
  have "sint v \<noteq> 2 ^ 63" "2 ^ 63 \<noteq> sint v" for v :: i64 using sint_range(2) [of v] by linarith+
  then show "x = y" using eq by (auto simp: key_rank_def split: option.splits intro: signed_word_eqI)
qed

lemma sorted_first_seen: "sort_key key_rank (first_seen keys) = sorted_keys keys"
proof -
  have "mset (first_seen keys) = mset (remdups keys)"
    by (metis first_seen_props set_remdups distinct_remdups set_eq_iff_mset_eq_distinct)
  then show ?thesis unfolding sorted_keys_def
    by (intro sort_key_inj_key_eq) (auto intro: inj_on_subset [OF key_rank_inj])
qed

lemma agg_input_of_at:
  "idx < length (columns b) \<Longrightarrow> gpu_eligible_scalar (arr_type (columns b ! idx))
    \<Longrightarrow> agg_input_of b idx = Inr (input_at b idx)"
  by (auto simp: agg_input_of_def get_column_def input_at_def gpu_eligible_scalar_def as_int64_def as_float64_def)

lemma agg_inputs:
  "aggregable b spec \<Longrightarrow>
   collect_res (\<lambda>(_, idx). agg_input_of b idx) (aggregates spec) = Inr (map (\<lambda>(_, idx). input_at b idx) (aggregates spec))"
  by (intro collect_res_map) (auto simp: aggregable_def list_all_iff agg_input_of_at)

text \<open>An output column has the declared type and one cell per group.\<close>

lemma aggregate_column_fits:
  "aggregate_column f input gs = Inr (dt, arr) \<Longrightarrow> column_fits (length gs) (Field n dt True) arr"
  by (induction f input gs rule: aggregate_column.induct)
    (auto simp: column_fits_def map_res_Inr Let_def dest: collect_res_length)

lemma agg_field_columns:
  assumes "agg_inv (map (\<lambda>(_, idx). input_at b idx) (aggregates spec)) keys st" and "length keys < 2 ^ 63"
    and "order = sort_key (\<lambda>g. key_rank (group_keys st ! g)) [0..<length (group_keys st)]"
  defines "inputs \<equiv> map (\<lambda>(_, idx). input_at b idx) (aggregates spec)"
  shows "map ((!) (group_keys st)) order = sorted_keys keys"
    and "collect_res (agg_field_column b st order) (zip [0..<length inputs] (zip inputs (aggregates spec)))
    = collect_res (\<lambda>(f, idx). map_res (\<lambda>(dt, arr). (Field (aggregate_name b f idx) dt True, arr))
         (aggregate_column f (input_at b idx) (map (group_rows keys) (sorted_keys keys)))) (aggregates spec)"
proof -
  have "map ((!) (group_keys st)) order = sort_key key_rank (map ((!) (group_keys st)) [0..<length (group_keys st)])"
    unfolding assms(3) by (rule map_sort_key)
  then show sorted: "map ((!) (group_keys st)) order = sorted_keys keys"
    using assms(1) by (simp add: map_nth agg_inv_def sorted_first_seen)
  have small: "length (group_rows keys k) < 2 ^ 63" for k
    using assms(2) length_filter_le [of "\<lambda>r. keys ! r = k" "[0..<length keys]"] by (simp add: group_rows_def)
  have accs: "map (\<lambda>g. accs st ! g ! a) order = map (agg_acc (inputs ! a)) (map (group_rows keys) (sorted_keys keys))"
    if "a < length inputs" for a
  proof -
    have "\<forall>g \<in> set order. g < length (group_keys st)" using assms(3) by simp
    then have "map (\<lambda>g. accs st ! g ! a) order = map (\<lambda>g. agg_acc (inputs ! a) (group_rows keys (group_keys st ! g))) order"
      using assms(1) that by (auto simp: agg_inv_def inputs_def)
    then show ?thesis by (simp add: sorted [symmetric])
  qed
  let ?F = "\<lambda>(f, idx). map_res (\<lambda>(dt, arr). (Field (aggregate_name b f idx) dt True, arr))
         (aggregate_column f (input_at b idx) (map (group_rows keys) (sorted_keys keys)))"
  have each: "agg_field_column b st order (a, inputs ! a, aggregates spec ! a) = ?F (aggregates spec ! a)"
    if "a < length inputs" for a
    using that accs [OF that] agg_output_column [of "map (group_rows keys) (sorted_keys keys)"] small
    by (auto simp: agg_field_column_def inputs_def split: prod.splits)
  have "zip [0..<length inputs] (zip inputs (aggregates spec))
      = map (\<lambda>a. (a, inputs ! a, aggregates spec ! a)) [0..<length inputs]"
    by (intro nth_equalityI) (auto simp: inputs_def)
  moreover have "aggregates spec = map ((!) (aggregates spec)) [0..<length inputs]"
    by (simp add: inputs_def map_nth)
  moreover have "collect_res (agg_field_column b st order) (map (\<lambda>a. (a, inputs ! a, aggregates spec ! a)) as)
      = collect_res ?F (map ((!) (aggregates spec)) as)" if "\<forall>a \<in> set as. a < length inputs" for as
    using that each by (induction as) auto
  ultimately show "collect_res (agg_field_column b st order) (zip [0..<length inputs] (zip inputs (aggregates spec)))
    = collect_res ?F (aggregates spec)" by simp
qed

context arrow_compute
begin

lemma aggregate_rows:
  assumes "batch_ok b" and "key_column b (group_by spec) keys" and "aggregable b spec" and "num_rows b < 2 ^ 63"
  shows "aggregate A b spec = aggregate_result b keys spec"
proof -
  let ?inputs = "map (\<lambda>(_, idx). input_at b idx) (aggregates spec)"
  have n: "length keys = num_rows b" by (rule key_column_length [OF assms(1,2)])
  obtain st where st: "fold_res (agg_row spec ?inputs keys) [0..<num_rows b] \<lparr>group_index = [], group_keys = [], accs = []\<rparr>
      = Inr st" "agg_inv ?inputs keys st"
    using agg_rows_inv [of ?inputs spec "num_rows b" keys] n by auto
  let ?order = "sort_key (\<lambda>g. key_rank (group_keys st ! g)) [0..<length (group_keys st)]"
  have small: "length keys < 2 ^ 63" using n assms(4) by simp
  note cols = agg_field_columns [OF st(2) small refl]
  let ?cols = "collect_res (\<lambda>(f, idx). map_res (\<lambda>(dt, arr). (Field (aggregate_name b f idx) dt True, arr))
         (aggregate_column f (input_at b idx) (map (group_rows keys) (sorted_keys keys)))) (aggregates spec)"
  let ?f = "Field (field_name (schema b ! group_by spec)) Int64 True"
  have new: "a_try_new A (?f # map fst cs) (int64_array (sorted_keys keys) # map snd cs)
      = Inr \<lparr>schema = ?f # map fst cs, columns = int64_array (sorted_keys keys) # map snd cs,
             num_rows = length (sorted_keys keys)\<rparr>" if "?cols = Inr cs" for cs
  proof -
    have "list_all2 (column_fits (length (sorted_keys keys))) (map fst cs) (map snd cs)"
      unfolding list_all2_map1 list_all2_map2 list_all2_same using that
      by (rule collect_res_all) (auto simp: map_res_Inr dest!: aggregate_column_fits)
    then have "columns_fit (new_rows (int64_array (sorted_keys keys) # map snd cs)) (?f # map fst cs)
        (int64_array (sorted_keys keys) # map snd cs)"
      by (simp add: columns_fit_def new_rows_def column_fits_def)
    then show ?thesis by (simp add: try_new_ok new_rows_def)
  qed
  have "aggregate A b spec = and_then ?cols (\<lambda>cs. lift_arrow (a_try_new A (?f # map fst cs)
      (int64_array (sorted_keys keys) # map snd cs)))"
    using cols by (simp add: aggregate_def int64_column_key [OF assms(2)] agg_inputs [OF assms(3)] st(1))
  also have "\<dots> = aggregate_result b keys spec"
    using new by (cases ?cols) (simp_all add: aggregate_result_def)
  finally show ?thesis .
qed

lemma vector_distance_rows:
  assumes "batch_ok b" and "i < length (columns b)" and "vector_dimension (arr_type (columns b ! i)) = Some d"
    and "length query = d"
  shows "vector_distance A b i query metric name = Inr \<lparr>
     schema = schema b @ [Field name Float32 True],
     columns = columns b @ [float32_array (map (map_option (\<lambda>c. distance metric (cell_vec c) query)) (cells (columns b ! i)))],
     num_rows = num_rows b\<rparr>"
proof -
  let ?new = "float32_array (map (map_option (\<lambda>c. distance metric (cell_vec c) query)) (cells (columns b ! i)))"
  obtain f n where ty: "arr_type (columns b ! i) = FixedSizeList f n" "field_type f = Float32" "0 < n" "d = nat n"
    using assms(3) by (auto simp: vector_dimension_Some)
  have "columns_fit (num_rows b) (schema b @ [Field name Float32 True]) (columns b @ [?new])"
    using assms(1) batch_ok_rows [OF assms(1,2)] unfolding columns_fit_def batch_ok_def
    by (intro list_all2_appendI) (auto simp: column_fits_def)
  moreover have "new_rows (columns b @ [?new]) = num_rows b"
    using assms(2) batch_ok_rows [OF assms(1), of 0] by (cases "columns b") (auto simp: new_rows_def)
  ultimately have "a_try_new A (schema b @ [Field name Float32 True]) (columns b @ [?new])
      = Inr \<lparr>schema = schema b @ [Field name Float32 True], columns = columns b @ [?new], num_rows = num_rows b\<rparr>"
    using try_new_ok [of "columns b @ [?new]"] by simp
  then show ?thesis using assms(2,4) ty by (simp add: vector_distance_def get_column_def)
qed

end

section \<open>Symmetry of the distances\<close>

lemma map2_symmetric: "(\<And>x y. f x y = f y x) \<Longrightarrow> map2 f xs ys = map2 f ys xs"
  by (induction xs ys rule: list_induct2') auto

lemma l2_commute: "l2 a b = l2 b a"
  unfolding l2_def by (subst map2_symmetric) (rule f32_sub_square_swap, rule refl)

lemma cosine_commute: "cosine a b = cosine b a"
proof -
  have "map2 f32_mul a b = map2 f32_mul b a" by (rule map2_symmetric) (rule f32_mul_commute)
  moreover have "f32_mul x y = f32_mul y x" for x y by (rule f32_mul_commute)
  ultimately show ?thesis unfolding cosine_def Let_def by (metis (no_types, lifting))
qed

lemma distance_commute: "distance m a b = distance m b a"
  by (cases m) (simp_all add: l2_commute cosine_commute)

section \<open>Properties\<close>

text \<open>
  C3: Grouped aggregation computes SQL's \<open>GROUP BY\<close>: one row per distinct key in ascending order
  with the \<open>NULL\<close> group last; \<open>COUNT\<close> counts the non-\<open>NULL\<close> inputs of the group; \<open>SUM\<close>, \<open>MIN\<close> and
  \<open>MAX\<close> are over the non-\<open>NULL\<close> inputs and \<open>NULL\<close> where there are none; an integer sum that leaves
  the 64-bit range is an execution error and never wraps.
\<close>

theorem aggregate_correct:
  assumes "arrow_compute A" and "batch_ok b" and "key_column b (group_by spec) keys" and "aggregable b spec"
    and "num_rows b < 2 ^ 63"
  shows "aggregate A b spec = aggregate_result b keys spec"
  using arrow_compute.aggregate_rows [OF assms] .

theorem aggregate_correct_witness:
  "aggregate arrow_ref
     \<lparr>schema = [Field ''k'' Int64 True, Field ''v'' Int64 True],
      columns = [int64_array [Some 3, None, Some 1, Some 3], int64_array [Some 10, Some 20, None, Some 5]], num_rows = 4\<rparr>
     \<lparr>group_by = 0, aggregates = [(AggSum, 1), (AggCount, 1)]\<rparr>
   = Inr \<lparr>schema = [Field ''k'' Int64 True, Field ''SUM(v)'' Int64 True, Field ''COUNT(v)'' Int64 True],
          columns = [int64_array [Some 1, Some 3, None], int64_array [None, Some 15, Some 20],
                     int64_array [Some 0, Some 2, Some 1]], num_rows = 3\<rparr>"
  using aggregate_correct [OF aref.arrow_compute_axioms, of
     "\<lparr>schema = [Field ''k'' Int64 True, Field ''v'' Int64 True],
      columns = [int64_array [Some 3, None, Some 1, Some 3], int64_array [Some 10, Some 20, None, Some 5]], num_rows = 4\<rparr>"
     "\<lparr>group_by = 0, aggregates = [(AggSum, 1), (AggCount, 1)]\<rparr>" "[Some 3, None, Some 1, Some 3]"]
  by (simp add: batch_ok_def columns_fit_def column_fits_def array_ok_def key_column_def as_int64_def int64_array_def
      aggregable_def gpu_eligible_scalar_def aggregate_result_def sorted_keys_def key_rank_def input_at_def
      group_rows_def group_values_def sum_or_overflow_def List.map_filter_def aggregate_name_def upt_rec)




end
