(* ===== verification/Host_Memory.thy ===== *)
theory Host_Memory
  imports Core_Types
begin

text \<open>
  Host buffers (\<open>crates/oxidelake-memory/src/aligned.rs\<close>, \<open>host.rs\<close> and \<open>class.rs\<close>) and the laws of the
  buffer layouts and backend names of \<open>Core_Types\<close>.  The allocator and the provider of page-locked
  memory are arguments.  A buffer keeps the bytes of its whole allocation; \<open>as_slice\<close> is \<open>None\<close> where
  the slice would reach behind the allocation.
\<close>

section \<open>Aligned buffers\<close>

type_synonym byte = "8 word"

record aligned_buf =
  ab_ptr :: nat
  ab_size :: nat
  ab_align :: nat
  ab_len :: nat
  ab_bytes :: "byte list"

text \<open>\<open>Layout::from_size_align\<close>: a power of two, and a size that rounded up stays below \<open>isize::MAX\<close>.\<close>

definition layout_from_size_align :: "nat \<Rightarrow> nat \<Rightarrow> string + (nat \<times> nat)" where
  "layout_from_size_align sz align =
    (if is_power_of_two align \<and> sz \<le> 2 ^ 63 - align then Inr (sz, align)
     else Inl ''invalid parameters to Layout::from_size_align'')"

definition aligned_zeroed :: "(nat \<Rightarrow> nat \<Rightarrow> nat option) \<Rightarrow> nat \<Rightarrow> nat \<Rightarrow> engine_error + aligned_buf" where
  "aligned_zeroed alloc len align =
     and_then (layout_new len align) (\<lambda>wanted.
     let sz = max (padded_len wanted) align in
     and_then (map_err (\<lambda>e. Allocation len align [Txt e]) (layout_from_size_align sz align)) (\<lambda>_.
     and_then (ok_or (alloc sz align) (Allocation len align [Txt ''allocator returned null''])) (\<lambda>ptr.
     Inr \<lparr>ab_ptr = ptr, ab_size = sz, ab_align = align, ab_len = len, ab_bytes = replicate sz 0\<rparr>)))"

definition aligned_host :: "(nat \<Rightarrow> nat \<Rightarrow> nat option) \<Rightarrow> nat \<Rightarrow> engine_error + aligned_buf" where
  "aligned_host alloc len = aligned_zeroed alloc len HOST_ALIGN"

definition aligned_device_staging :: "(nat \<Rightarrow> nat \<Rightarrow> nat option) \<Rightarrow> nat \<Rightarrow> engine_error + aligned_buf" where
  "aligned_device_staging alloc len = aligned_zeroed alloc len DEVICE_ALIGN"

definition buf_capacity :: "aligned_buf \<Rightarrow> nat" where
  "buf_capacity b = ab_size b"

definition buf_as_slice :: "aligned_buf \<Rightarrow> byte list option" where
  "buf_as_slice b = (if ab_len b \<le> length (ab_bytes b) then Some (take (ab_len b) (ab_bytes b)) else None)"

section \<open>Pinned or pageable memory\<close>

datatype memory_class = Pinned | Pageable

fun display_class :: "memory_class \<Rightarrow> string" where
  "display_class Pinned = ''pinned''"
| "display_class Pageable = ''pageable''"

datatype 'p host_inner = InnerPageable aligned_buf | InnerPinned 'p

record 'p host_alloc =
  ha_class :: memory_class
  ha_inner :: "'p host_inner"

definition host_pageable :: "(nat \<Rightarrow> nat \<Rightarrow> nat option) \<Rightarrow> nat \<Rightarrow> engine_error + 'p host_alloc" where
  "host_pageable alloc len = map_res (\<lambda>b. \<lparr>ha_class = Pageable, ha_inner = InnerPageable b\<rparr>) (aligned_host alloc len)"

definition from_pinned :: "'p \<Rightarrow> 'p host_alloc" where
  "from_pinned buf = \<lparr>ha_class = Pinned, ha_inner = InnerPinned buf\<rparr>"

definition pinned_or_pageable :: "(nat \<Rightarrow> nat \<Rightarrow> nat option) \<Rightarrow> nat \<Rightarrow> (nat \<Rightarrow> engine_error + 'p host_alloc) option
    \<Rightarrow> engine_error + 'p host_alloc" where
  "pinned_or_pageable alloc len provider = (case provider of
      Some alloc_pinned \<Rightarrow> (case alloc_pinned len of Inr buf \<Rightarrow> Inr buf | Inl err \<Rightarrow> host_pageable alloc len)
    | None \<Rightarrow> host_pageable alloc len)"

section \<open>Lemmas\<close>

lemma padded_len_props:
  assumes "0 < bl_align l" and "bl_len l + bl_align l \<le> 2 ^ 64"
  shows "bl_align l dvd padded_len l" and "bl_len l \<le> padded_len l" and "padded_len l < bl_len l + bl_align l"
proof -
  define n a where "n = bl_len l" and "a = bl_align l"
  have a: "0 < a" using assms(1) by (simp add: a_def)
  have p: "padded_len l = (n + a - 1) div a * a" unfolding n_def a_def using padded_len_exact [OF assms] .
  have "(n + a - 1) div a * a + (n + a - 1) mod a = n + a - 1" by simp
  moreover have "(n + a - 1) mod a < a" using a by simp
  ultimately have "n \<le> (n + a - 1) div a * a" "(n + a - 1) div a * a < n + a" using a by linarith+
  then show "bl_align l dvd padded_len l" "bl_len l \<le> padded_len l" "padded_len l < bl_len l + bl_align l"
    using p by (simp_all add: n_def [symmetric] a_def [symmetric])
qed

lemma aligned_zeroed_buf:
  assumes "len + align \<le> 2 ^ 64" and "aligned_zeroed alloc len align = Inr b"
  shows "len \<le> buf_capacity b \<and> align \<le> buf_capacity b \<and> align dvd buf_capacity b \<and> ab_len b = len
    \<and> alloc (buf_capacity b) align = Some (ab_ptr b) \<and> buf_as_slice b = Some (replicate len 0)"
proof -
  obtain l where l: "layout_new len align = Inr l" and cap: "ab_size b = max (padded_len l) align"
      and b: "ab_len b = len" "ab_bytes b = replicate (ab_size b) 0" "alloc (ab_size b) align = Some (ab_ptr b)"
    using assms(2) by (auto simp: aligned_zeroed_def Let_def result_simps)
  have "bl_len l = len" "bl_align l = align" "0 < align" using layout_new_align [OF l] by simp_all
  then have "align dvd padded_len l" "len \<le> padded_len l"
    using padded_len_props [of l] assms(1) by simp_all
  then show ?thesis using cap b by (auto simp: buf_capacity_def buf_as_slice_def max_def min_def)
qed

lemma ws_backend: "\<not> is_whitespace (hd (as_str k))" "\<not> is_whitespace (last (as_str k))" "as_str k \<noteq> []"
  by (cases k; simp add: is_whitespace_def)+

lemma lower_backend: "to_ascii_lowercase (as_str k) = as_str k"
  by (cases k) (simp_all add: to_ascii_lowercase_def to_ascii_lower_def Let_def)

lemma of_char_lower: "to_ascii_lower c = to_ascii_lower d \<Longrightarrow> is_whitespace c \<Longrightarrow> is_whitespace d"
proof -
  assume eq: "to_ascii_lower c = to_ascii_lower d" and ws: "is_whitespace c"
  have c: "to_ascii_lower c = c" using ws by (auto simp: is_whitespace_def to_ascii_lower_def Let_def)
  show "is_whitespace d"
  proof (cases "65 \<le> (of_char d :: nat) \<and> of_char d \<le> (90 :: nat)")
    case True
    then have "c = char_of (of_char d + 32 :: nat)" using eq c by (simp add: to_ascii_lower_def Let_def)
    then have "of_char c = (of_char d + 32 :: nat)" using True by simp
    then show ?thesis using True ws by (auto simp: is_whitespace_def Let_def)
  next
    case False
    then have "to_ascii_lower d = d" unfolding to_ascii_lower_def Let_def by (simp only: if_False)
    then show ?thesis using eq c ws by simp
  qed
qed

text \<open>A name in any letter case, between white space.\<close>

lemma from_str_spelled:
  assumes "\<forall>c \<in> set l. is_whitespace c" and "\<forall>c \<in> set r. is_whitespace c" and "to_ascii_lowercase s = as_str k"
  shows "from_str_backend (l @ s @ r) = Inr k"
proof -
  have ne: "s \<noteq> []" using assms(3) ws_backend(3) [of k] by (auto simp: to_ascii_lowercase_def)
  have "to_ascii_lower (hd s) = hd (as_str k)" "to_ascii_lower (last s) = last (as_str k)"
    using assms(3) ne by (auto simp: to_ascii_lowercase_def hd_map last_map simp flip: assms(3))
  moreover have "to_ascii_lower (hd (as_str k)) = hd (as_str k)" "to_ascii_lower (last (as_str k)) = last (as_str k)"
    using lower_backend [of k] ws_backend(3) [of k] by (metis hd_map last_map to_ascii_lowercase_def)+
  ultimately have "\<not> is_whitespace (hd s)" "\<not> is_whitespace (last s)"
    using of_char_lower ws_backend by metis+
  then have "trim (l @ s @ r) = s" using trim_pad assms(1,2) ne by blast
  then show ?thesis using assms(3) by (cases k) (simp_all add: from_str_backend_def)
qed

section \<open>Properties\<close>

text \<open>
  C18: Padding rounds up: for every layout the padded length is the least multiple of the alignment
  that holds the length, as long as the sum of both fits the address space.
\<close>

theorem padded_len_least:
  assumes "layout_new len align = Inr l" and "len + align \<le> 2 ^ 64"
  shows "align dvd padded_len l \<and> len \<le> padded_len l \<and> (\<forall>n. align dvd n \<and> len \<le> n \<longrightarrow> padded_len l \<le> n)"
proof -
  have l: "bl_len l = len" "bl_align l = align" "0 < align" using layout_new_align [OF assms(1)] by simp_all
  note p = padded_len_props [of l, unfolded l, OF l(3) assms(2)]
  have "padded_len l \<le> n" if "align dvd n" "len \<le> n" for n
  proof (rule ccontr)
    assume "\<not> padded_len l \<le> n"
    then have "n < padded_len l" by simp
    moreover have "align dvd (padded_len l - n)" using p(1) that(1) by (rule dvd_diff_nat)
    ultimately have "align \<le> padded_len l - n" by (intro dvd_imp_le) simp_all
    then have "n + align \<le> padded_len l" using \<open>n < padded_len l\<close> by simp
    then show False using p(3) that(2) by simp
  qed
  then show ?thesis using p by blast
qed

theorem padded_len_least_witness:
  "layout_new 129 128 = Inr (layout_device 129) \<and> 128 dvd padded_len (layout_device 129)
    \<and> 129 \<le> padded_len (layout_device 129)"
proof -
  have l: "layout_new 129 128 = Inr (layout_device 129)"
    by (simp add: layout_new_def layout_device_def DEVICE_ALIGN_def is_power_of_two_def) (intro image_eqI [of _ _ 7]; simp)
  then show ?thesis using padded_len_least [OF l] by simp
qed

text \<open>
  C19: A buffer that was allocated covers its contents: as long as length plus alignment fit the
  address space, the allocation is a multiple of the alignment, at least as long as the logical
  length, and the slice is that many zero bytes.
\<close>

theorem aligned_buf_covers:
  assumes "len + align \<le> 2 ^ 64" and "aligned_zeroed alloc len align = Inr b"
  shows "len \<le> buf_capacity b \<and> align \<le> buf_capacity b \<and> align dvd buf_capacity b \<and> ab_len b = len
    \<and> alloc (buf_capacity b) align = Some (ab_ptr b) \<and> buf_as_slice b = Some (replicate len 0)"
  using aligned_zeroed_buf [OF assms] .

lemma sample_zeroed: "aligned_zeroed (\<lambda>sz align. Some 4096) 5 64
  = Inr \<lparr>ab_ptr = 4096, ab_size = 64, ab_align = 64, ab_len = 5, ab_bytes = replicate 64 0\<rparr>"
proof -
  have "is_power_of_two 64" unfolding is_power_of_two_def by (simp, intro image_eqI [of _ _ 6]) simp_all
  then show ?thesis
    by (simp add: aligned_zeroed_def layout_new_def padded_len_def u64_add_def layout_from_size_align_def)
qed

theorem aligned_buf_covers_witness:
  "buf_as_slice \<lparr>ab_ptr = 4096, ab_size = 64, ab_align = 64, ab_len = 5, ab_bytes = replicate 64 0\<rparr> = Some (replicate 5 0)"
  using aligned_buf_covers [OF _ sample_zeroed] by simp


text \<open>
  C21: Backend names round trip: every backend kind is parsed back from its name, in any letter case
  and with any white space around it.
\<close>

theorem backend_name_roundtrip:
  assumes "\<forall>c \<in> set l. is_whitespace c" and "\<forall>c \<in> set r. is_whitespace c" and "to_ascii_lowercase s = as_str k"
  shows "from_str_backend (l @ s @ r) = Inr k"
  using from_str_spelled [OF assms] .

theorem backend_name_roundtrip_witness: "from_str_backend '' CUDA '' = Inr Cuda"
proof -
  have "to_ascii_lowercase ''CUDA'' = as_str Cuda" by code_simp
  then show ?thesis using backend_name_roundtrip [of "'' ''" "'' ''" "''CUDA''" Cuda] by (simp add: is_whitespace_def)
qed

end
