(* ===== verification/Device_Backend.thy ===== *)
theory Device_Backend
  imports Cpu_Aggregate Host_Memory
begin

text \<open>
  The hardware abstraction (\<open>crates/oxidelake-device/src\<close>): the backend trait (\<open>backend.rs\<close>), the handles
  (\<open>handles.rs\<close>), the CPU backend (\<open>cpu/mod.rs\<close>) and the backend selection (\<open>detector.rs\<close>).

  The trait object is the record \<open>gpu_backend\<close> of the methods an operator calls.  A driver has state
  of its own (device memory, queues), so every method takes and returns a state \<open>'w\<close>; \<open>'t\<close> and \<open>'d\<close> are
  the stream and the batch handles.  The default bodies of the \<open>supports\<close> methods answer true.
\<close>

section \<open>Calls that may fail\<close>

type_synonym ('w, 'a) call = "'w \<Rightarrow> 'a result \<times> 'w"

definition call_then :: "('w, 'a) call \<Rightarrow> ('a \<Rightarrow> ('w, 'b) call) \<Rightarrow> ('w, 'b) call" where
  "call_then m f w = (case m w of (Inl e, w') \<Rightarrow> (Inl e, w') | (Inr x, w') \<Rightarrow> f x w')"

definition pure_call :: "'a result \<Rightarrow> ('w, 'a) call" where
  "pure_call r w = (r, w)"

lemma call_then_Inr:
  "call_then m f w = (Inr y, w'') \<longleftrightarrow> (\<exists>x w'. m w = (Inr x, w') \<and> f x w' = (Inr y, w''))"
  by (auto simp: call_then_def split: prod.splits sum.splits)

lemma call_then_Inl:
  "call_then m f w = (Inl e, w'') \<longleftrightarrow> m w = (Inl e, w'') \<or> (\<exists>x w'. m w = (Inr x, w') \<and> f x w' = (Inl e, w''))"
  by (auto simp: call_then_def split: prod.splits sum.splits)

lemma pure_call_eq [simp]: "pure_call r w = (s, w') \<longleftrightarrow> r = s \<and> w = w'"
  by (simp add: pure_call_def)

lemma call_then_pure [simp]:
  "call_then (pure_call (Inr x)) f = f x" "call_then (pure_call (Inl e)) f = pure_call (Inl e)"
  by (simp_all add: fun_eq_iff call_then_def pure_call_def)

section \<open>Handles\<close>

datatype stream_inner = StreamHost | StreamCuda | StreamMetal

record device_stream =
  ds_backend :: backend_kind
  ds_inner :: stream_inner

datatype 'g batch_inner = BatchHost batch | BatchGpu 'g

record 'g device_batch =
  db_backend :: backend_kind
  db_schema :: "field list"
  db_num_rows :: nat
  db_inner :: "'g batch_inner"

definition from_host :: "batch \<Rightarrow> 'g device_batch" where
  "from_host b = \<lparr>db_backend = CpuSimd, db_schema = schema b, db_num_rows = num_rows b, db_inner = BatchHost b\<rparr>"

definition batch_as_host :: "'g device_batch \<Rightarrow> batch option" where
  "batch_as_host d = (case db_inner d of BatchHost b \<Rightarrow> Some b | BatchGpu g \<Rightarrow> None)"

datatype 'g buffer_inner = BufferHost aligned_buf | BufferGpu 'g

record 'g device_buffer =
  dbuf_backend :: backend_kind
  dbuf_len :: nat
  dbuf_inner :: "'g buffer_inner"

definition buffer_as_host :: "'g device_buffer \<Rightarrow> aligned_buf option" where
  "buffer_as_host d = (case dbuf_inner d of BufferHost b \<Rightarrow> Some b | BufferGpu g \<Rightarrow> None)"

section \<open>The backend trait\<close>

record memory_info =
  total_bytes :: nat
  free_bytes :: nat
  pinned_supported :: bool

definition used_bytes :: "memory_info \<Rightarrow> nat" where
  "used_bytes i = u64_saturating_sub (total_bytes i) (free_bytes i)"

record ('w, 't, 'd) gpu_backend =
  be_kind :: backend_kind
  be_device_id :: device_id
  be_create_stream :: "('w, 't) call"
  be_synchronize :: "'t \<Rightarrow> ('w, unit) call"
  be_upload :: "'t \<Rightarrow> batch \<Rightarrow> ('w, 'd) call"
  be_download :: "'t \<Rightarrow> 'd \<Rightarrow> ('w, batch) call"
  be_filter_project :: "'t \<Rightarrow> 'd \<Rightarrow> predicate \<Rightarrow> nat list \<Rightarrow> ('w, 'd) call"
  be_hash_join :: "'t \<Rightarrow> 'd \<Rightarrow> 'd \<Rightarrow> nat \<Rightarrow> nat \<Rightarrow> ('w, 'd) call"
  be_aggregate :: "'t \<Rightarrow> 'd \<Rightarrow> aggregate_spec \<Rightarrow> ('w, 'd) call"
  be_vector_distance :: "'t \<Rightarrow> 'd \<Rightarrow> nat \<Rightarrow> f32 list \<Rightarrow> distance_metric \<Rightarrow> string \<Rightarrow> ('w, 'd) call"
  be_supports_predicate :: "predicate \<Rightarrow> bool"
  be_supports_hash_join :: bool
  be_supports_aggregate :: bool

section \<open>The CPU backend\<close>

definition foreign :: "string \<Rightarrow> backend_kind \<Rightarrow> engine_error" where
  "foreign what k = Device CpuSimd [Txt what, Txt '' belongs to the '', Txt (as_str k),
     Txt '' backend, not the CPU backend'']"

definition check_stream :: "device_stream \<Rightarrow> unit result" where
  "check_stream s = (case ds_inner s of
      StreamHost \<Rightarrow> Inr ()
    | _ \<Rightarrow> fail (foreign ''stream'' (ds_backend s)))"

definition host_batch :: "'g device_batch \<Rightarrow> batch result" where
  "host_batch d = ok_or (batch_as_host d) (Err (foreign ''batch'' (db_backend d)))"

text \<open>\<open>/proc/meminfo\<close>: the second word of the first line that starts with the key, in KiB.\<close>

fun split_on :: "(char \<Rightarrow> bool) \<Rightarrow> string \<Rightarrow> string \<Rightarrow> string list" where
  "split_on p [] cur = [rev cur]"
| "split_on p (c # cs) cur = (if p c then rev cur # split_on p cs [] else split_on p cs (c # cur))"

definition lines :: "string \<Rightarrow> string list" where
  "lines t = (let ls = split_on (\<lambda>c. c = CHR 0x0A) t [];
                 whole = map (\<lambda>l. if l \<noteq> [] \<and> last l = CHR 0x0D then butlast l else l) (butlast ls) in
     if last ls = [] then whole else whole @ [last ls])"

definition split_whitespace :: "string \<Rightarrow> string list" where
  "split_whitespace t = filter (\<lambda>w. w \<noteq> []) (split_on is_whitespace t [])"

definition parse_u64 :: "string \<Rightarrow> nat option" where
  "parse_u64 t = (let d = (if t \<noteq> [] \<and> hd t = CHR ''+'' then tl t else t) in
     if d \<noteq> [] \<and> list_all (\<lambda>c. 48 \<le> (of_char c :: nat) \<and> of_char c \<le> (57 :: nat)) d \<and> read_nat d \<le> u64_max
     then Some (read_nat d) else None)"

definition meminfo_field :: "string \<Rightarrow> string \<Rightarrow> nat" where
  "meminfo_field text key =
    (case find (\<lambda>l. take (length key) l = key) (lines text) of
       None \<Rightarrow> 0
     | Some l \<Rightarrow> (let ws = split_whitespace l in
         if length ws < 2 then 0
         else case parse_u64 (ws ! 1) of None \<Rightarrow> 0 | Some kb \<Rightarrow> kb * 1024 mod 2 ^ 64))"

definition host_memory :: "string option \<Rightarrow> nat \<times> nat" where
  "host_memory meminfo = (case meminfo of
      None \<Rightarrow> (0, 0)
    | Some text \<Rightarrow> (meminfo_field text ''MemTotal:'', meminfo_field text ''MemAvailable:''))"

definition cpu_memory_info :: "string option \<Rightarrow> memory_info" where
  "cpu_memory_info meminfo = (let (t, f) = host_memory meminfo in
     \<lparr>total_bytes = t, free_bytes = f, pinned_supported = False\<rparr>)"

definition cpu_alloc_device :: "(nat \<Rightarrow> nat \<Rightarrow> nat option) \<Rightarrow> nat \<Rightarrow> engine_error + 'g device_buffer" where
  "cpu_alloc_device alloc bytes = map_res (\<lambda>b. \<lparr>dbuf_backend = CpuSimd, dbuf_len = bytes, dbuf_inner = BufferHost b\<rparr>)
     (aligned_device_staging alloc bytes)"

definition cpu_alloc_pinned_host :: "(nat \<Rightarrow> nat \<Rightarrow> nat option) \<Rightarrow> nat \<Rightarrow> engine_error + 'p host_alloc" where
  "cpu_alloc_pinned_host alloc bytes = host_pageable alloc bytes"

definition cpu_create_stream :: device_stream where
  "cpu_create_stream = \<lparr>ds_backend = CpuSimd, ds_inner = StreamHost\<rparr>"

text \<open>Reading and writing host buffers; the pinned ones are read and written by the driver.\<close>

definition host_as_slice :: "('p \<Rightarrow> engine_error + byte list) \<Rightarrow> 'p host_alloc \<Rightarrow> byte list result" where
  "host_as_slice pinned h = (case ha_inner h of
      InnerPageable b \<Rightarrow> ok_or (buf_as_slice b) (Panic ''slice behind the allocation'')
    | InnerPinned p \<Rightarrow> map_err Err (pinned p))"

definition buf_write :: "byte list \<Rightarrow> aligned_buf \<Rightarrow> aligned_buf" where
  "buf_write bs b = b\<lparr>ab_bytes := bs @ drop (length bs) (ab_bytes b)\<rparr>"

definition cpu_copy_h2d :: "('p \<Rightarrow> engine_error + byte list) \<Rightarrow> device_stream \<Rightarrow> 'p host_alloc
    \<Rightarrow> 'g device_buffer \<Rightarrow> 'g device_buffer result" where
  "cpu_copy_h2d pinned s src dst =
     and_then (check_stream s) (\<lambda>_.
     and_then (ok_or (buffer_as_host dst) (Err (foreign ''buffer'' (dbuf_backend dst)))) (\<lambda>d.
     and_then (host_as_slice pinned src) (\<lambda>bytes.
     if ab_len d < length bytes
     then fail (Execution [Txt ''copy_h2d: destination holds '', Num (ab_len d), Txt '' bytes, source has '',
                           Num (length bytes)])
     else Inr (dst\<lparr>dbuf_inner := BufferHost (buf_write bytes d)\<rparr>))))"

text \<open>The write into a pinned destination is the driver's; its argument is the bytes of the prefix.\<close>

definition cpu_copy_d2h :: "('p \<Rightarrow> engine_error + byte list) \<Rightarrow> (byte list \<Rightarrow> 'p \<Rightarrow> 'p) \<Rightarrow> device_stream
    \<Rightarrow> 'g device_buffer \<Rightarrow> 'p host_alloc \<Rightarrow> 'p host_alloc result" where
  "cpu_copy_d2h pinned write_pinned s src dst =
     and_then (check_stream s) (\<lambda>_.
     and_then (ok_or (buffer_as_host src) (Err (foreign ''buffer'' (dbuf_backend src)))) (\<lambda>b.
     and_then (host_as_slice pinned dst) (\<lambda>room.
     and_then (ok_or (buf_as_slice b) (Panic ''slice behind the allocation'')) (\<lambda>bytes.
     if length room < length bytes
     then fail (Execution [Txt ''copy_d2h: destination holds '', Num (length room), Txt '' bytes, source has '',
                           Num (length bytes)])
     else Inr (dst\<lparr>ha_inner := (case ha_inner dst of
                 InnerPageable d \<Rightarrow> InnerPageable (buf_write bytes d)
               | InnerPinned p \<Rightarrow> InnerPinned (write_pinned bytes p))\<rparr>)))))"

definition cpu_upload :: "device_stream \<Rightarrow> batch \<Rightarrow> 'g device_batch result" where
  "cpu_upload s b = and_then (check_stream s) (\<lambda>_. Inr (from_host b))"

definition cpu_download :: "device_stream \<Rightarrow> 'g device_batch \<Rightarrow> batch result" where
  "cpu_download s d = and_then (check_stream s) (\<lambda>_. host_batch d)"

definition cpu_filter_project :: "arrow_ops \<Rightarrow> device_stream \<Rightarrow> 'g device_batch \<Rightarrow> predicate \<Rightarrow> nat list
    \<Rightarrow> 'g device_batch result" where
  "cpu_filter_project A s d p projection =
     and_then (check_stream s) (\<lambda>_.
     and_then (host_batch d) (\<lambda>b.
     map_res from_host (filter_project A b p projection)))"

definition cpu_hash_join :: "((i64 \<times> nat) list \<Rightarrow> (i64 \<times> nat) list) \<Rightarrow> arrow_ops \<Rightarrow> device_stream
    \<Rightarrow> 'g device_batch \<Rightarrow> 'g device_batch \<Rightarrow> nat \<Rightarrow> nat \<Rightarrow> 'g device_batch result" where
  "cpu_hash_join ord A s dl dr lkey rkey =
     and_then (check_stream s) (\<lambda>_.
     and_then (host_batch dl) (\<lambda>l.
     and_then (host_batch dr) (\<lambda>r.
     map_res from_host (hash_join ord A l r lkey rkey))))"

definition cpu_aggregate :: "arrow_ops \<Rightarrow> device_stream \<Rightarrow> 'g device_batch \<Rightarrow> aggregate_spec
    \<Rightarrow> 'g device_batch result" where
  "cpu_aggregate A s d spec =
     and_then (check_stream s) (\<lambda>_.
     and_then (host_batch d) (\<lambda>b.
     map_res from_host (aggregate A b spec)))"

definition cpu_vector_distance :: "arrow_ops \<Rightarrow> device_stream \<Rightarrow> 'g device_batch \<Rightarrow> nat \<Rightarrow> f32 list
    \<Rightarrow> distance_metric \<Rightarrow> string \<Rightarrow> 'g device_batch result" where
  "cpu_vector_distance A s d column query metric output_name =
     and_then (check_stream s) (\<lambda>_.
     and_then (host_batch d) (\<lambda>b.
     map_res from_host (vector_distance A b column query metric output_name)))"

definition cpu_backend :: "((i64 \<times> nat) list \<Rightarrow> (i64 \<times> nat) list) \<Rightarrow> arrow_ops
    \<Rightarrow> ('w, device_stream, 'g device_batch) gpu_backend" where
  "cpu_backend ord A = \<lparr>
     be_kind = CpuSimd,
     be_device_id = CPU_device,
     be_create_stream = pure_call (Inr cpu_create_stream),
     be_synchronize = (\<lambda>s. pure_call (check_stream s)),
     be_upload = (\<lambda>s b. pure_call (cpu_upload s b)),
     be_download = (\<lambda>s d. pure_call (cpu_download s d)),
     be_filter_project = (\<lambda>s d p js. pure_call (cpu_filter_project A s d p js)),
     be_hash_join = (\<lambda>s l r lk rk. pure_call (cpu_hash_join ord A s l r lk rk)),
     be_aggregate = (\<lambda>s d spec. pure_call (cpu_aggregate A s d spec)),
     be_vector_distance = (\<lambda>s d c q m n. pure_call (cpu_vector_distance A s d c q m n)),
     be_supports_predicate = (\<lambda>_. True),
     be_supports_hash_join = True,
     be_supports_aggregate = True\<rparr>"

section \<open>Backend selection\<close>

record availability =
  av_cuda :: bool
  av_metal :: bool

definition best :: "availability \<Rightarrow> backend_kind" where
  "best a = (if av_cuda a then Cuda else if av_metal a then Metal else CpuSimd)"

text \<open>
  What a build and a machine offer: whether the feature is compiled in, what the probe answers, and the
  constructor of the backend.  Without the feature the probe is false and the constructor an error.
\<close>

record ('w, 't, 'd) machine =
  cuda_feature :: bool
  cuda_probe :: bool
  cuda_new :: "engine_error + ('w, 't, 'd) gpu_backend"
  metal_feature :: bool
  metal_probe :: bool
  metal_new :: "engine_error + ('w, 't, 'd) gpu_backend"

definition cuda_available :: "('w, 't, 'd) machine \<Rightarrow> bool" where
  "cuda_available m = (if cuda_feature m then cuda_probe m else False)"

definition metal_available :: "('w, 't, 'd) machine \<Rightarrow> bool" where
  "metal_available m = (if metal_feature m then metal_probe m else False)"

definition availability_of :: "('w, 't, 'd) machine \<Rightarrow> availability" where
  "availability_of m = \<lparr>av_cuda = cuda_available m, av_metal = metal_available m\<rparr>"

definition detected_kind :: "('w, 't, 'd) machine \<Rightarrow> backend_kind" where
  "detected_kind m = best (availability_of m)"

definition unavailable :: "backend_kind \<Rightarrow> bool \<Rightarrow> engine_error" where
  "unavailable k compiled_in = Device k
    (if compiled_in
     then [Txt ''explicitly requested but no '', Txt (as_str k), Txt '' device or driver is present on this machine'']
     else [Txt ''explicitly requested but OxideLake was built without the `'', Txt (as_str k), Txt ''` feature''])"

definition instantiate_cuda :: "('w, 't, 'd) machine \<Rightarrow> engine_error + ('w, 't, 'd) gpu_backend" where
  "instantiate_cuda m = (if cuda_feature m then cuda_new m else Inl (unavailable Cuda False))"

definition instantiate_metal :: "('w, 't, 'd) machine \<Rightarrow> engine_error + ('w, 't, 'd) gpu_backend" where
  "instantiate_metal m = (if metal_feature m then metal_new m else Inl (unavailable Metal False))"

fun instantiate :: "((i64 \<times> nat) list \<Rightarrow> (i64 \<times> nat) list) \<Rightarrow> arrow_ops
    \<Rightarrow> ('w, device_stream, 'g device_batch) machine \<Rightarrow> backend_kind \<Rightarrow> availability
    \<Rightarrow> engine_error + ('w, device_stream, 'g device_batch) gpu_backend" where
  "instantiate ord A m CpuSimd a = Inr (cpu_backend ord A)"
| "instantiate ord A m Cuda a =
     (if \<not> av_cuda a then Inl (unavailable Cuda (cuda_feature m)) else instantiate_cuda m)"
| "instantiate ord A m Metal a =
     (if \<not> av_metal a then Inl (unavailable Metal (metal_feature m)) else instantiate_metal m)"

definition select_with :: "((i64 \<times> nat) list \<Rightarrow> (i64 \<times> nat) list) \<Rightarrow> arrow_ops
    \<Rightarrow> ('w, device_stream, 'g device_batch) machine \<Rightarrow> string option
    \<Rightarrow> engine_error + ('w, device_stream, 'g device_batch) gpu_backend" where
  "select_with ord A m requested =
    (let a = availability_of m;
         wanted = (case map_option trim requested of None \<Rightarrow> None | Some s \<Rightarrow> if s \<noteq> [] then Some s else None) in
     and_then (case wanted of Some name \<Rightarrow> from_str_backend name | None \<Rightarrow> Inr (best a)) (\<lambda>k.
     instantiate ord A m k a))"

section \<open>The contract of a backend\<close>

text \<open>
  The CPU backend is the semantic reference that every GPU backend must match.  \<open>holds d b\<close> says that the
  handle \<open>d\<close> is a well-formed device batch that stands for the host batch \<open>b\<close>.  Filters match row for row.
  A join matches up to the order of its rows: the order of duplicates in a table filled by parallel
  threads is not fixed.  Aggregates and distances match up to \<open>agrees\<close> and \<open>near\<close>, whatever closeness of
  floating-point results a backend promises.  Any call may fail instead.

  A backend makes these promises for the data in its scope: the columns it carries without loss, the
  columns and literals it orders as the reference does, the columns whose extrema it folds as the
  reference does, and a number of rows.
\<close>

record backend_scope =
  carries :: "array \<Rightarrow> bool"
  orders :: "array \<Rightarrow> literal \<Rightarrow> bool"
  folds :: "aggregate_function \<Rightarrow> array \<Rightarrow> bool"
  max_rows :: nat

definition batch_carried :: "backend_scope \<Rightarrow> batch \<Rightarrow> bool" where
  "batch_carried S b = (num_rows b \<le> max_rows S \<and> list_all (carries S) (columns b))"

fun pred_ordered :: "backend_scope \<Rightarrow> batch \<Rightarrow> predicate \<Rightarrow> bool" where
  "pred_ordered S b (Compare i op lit) = orders S (columns b ! i) lit"
| "pred_ordered S b (And p q) = (pred_ordered S b p \<and> pred_ordered S b q)"

definition agg_folded :: "backend_scope \<Rightarrow> batch \<Rightarrow> aggregate_spec \<Rightarrow> bool" where
  "agg_folded S b spec = list_all (\<lambda>(f, i). folds S f (columns b ! i)) (aggregates spec)"

definition unlimited :: "nat \<Rightarrow> backend_scope" where
  "unlimited n = \<lparr>carries = (\<lambda>_. True), orders = (\<lambda>_ _. True), folds = (\<lambda>_ _. True), max_rows = n\<rparr>"

lemma unlimited_scope [simp]:
  "carries (unlimited n) a" "orders (unlimited n) a l" "folds (unlimited n) f a" "max_rows (unlimited n) = n"
  "pred_ordered (unlimited n) b p" "agg_folded (unlimited n) b spec"
  "batch_carried (unlimited n) b \<longleftrightarrow> num_rows b \<le> n"
  by (simp_all add: unlimited_def agg_folded_def batch_carried_def list_all_iff split_beta, induction p) simp_all

locale conforming_backend = arrow_compute +
  fixes B :: "('w, 't, 'd) gpu_backend"
    and holds :: "'d \<Rightarrow> batch \<Rightarrow> bool"
    and agrees :: "batch \<Rightarrow> batch \<Rightarrow> bool"
    and near :: "array \<Rightarrow> array \<Rightarrow> bool"
    and S :: backend_scope
  assumes upload_holds: "be_upload B t b w = (Inr d, w') \<Longrightarrow> batch_ok b \<Longrightarrow> batch_carried S b \<Longrightarrow> holds d b"
    and download_holds: "holds d b \<Longrightarrow> be_download B t d w = (Inr b', w') \<Longrightarrow> b' = b"
    and filter_matches: "holds d b \<Longrightarrow> batch_ok b \<Longrightarrow> batch_carried S b \<Longrightarrow> pred_ordered S b p
      \<Longrightarrow> be_filter_project B t d p js w = (Inr d', w') \<Longrightarrow> filter_project A b p js = Inr r \<Longrightarrow> holds d' r"
    and join_matches: "holds dl bl \<Longrightarrow> holds dr br \<Longrightarrow> batch_ok bl \<Longrightarrow> batch_ok br
      \<Longrightarrow> batch_carried S bl \<Longrightarrow> batch_carried S br
      \<Longrightarrow> key_column bl lkey lk \<Longrightarrow> key_column br rkey rk
      \<Longrightarrow> num_rows bl \<le> Suc u32_max \<Longrightarrow> num_rows br \<le> u32_max \<Longrightarrow> length (nested_loop lk rk) \<le> max_rows S
      \<Longrightarrow> be_hash_join B t dl dr lkey rkey w = (Inr d', w')
      \<Longrightarrow> \<exists>ps. mset ps = mset (nested_loop lk rk) \<and>
             holds d' (joined_batch bl br ps [0..<length (columns bl) + length (columns br)])"
    and aggregate_matches: "holds d b \<Longrightarrow> batch_ok b \<Longrightarrow> batch_carried S b \<Longrightarrow> agg_folded S b spec
      \<Longrightarrow> be_aggregate B t d spec w = (Inr d', w') \<Longrightarrow> aggregate A b spec = Inr r
      \<Longrightarrow> \<exists>r'. holds d' r' \<and> agrees r r'"
    and distance_matches: "holds d b \<Longrightarrow> batch_ok b \<Longrightarrow> batch_carried S b
      \<Longrightarrow> be_vector_distance B t d i q m n w = (Inr d', w') \<Longrightarrow> vector_distance A b i q m n = Inr r
      \<Longrightarrow> \<exists>r'. holds d' r' \<and> columns r' \<noteq> [] \<and> near (last (columns r)) (last (columns r'))"
    and ids_carried: "carries S (row_id_array ids)"
    and agrees_refl: "agrees r r"
    and near_refl: "near c c"
    and near_shape: "near c c' \<Longrightarrow> arr_type c' = arr_type c \<and> length (cells c') = length (cells c)"

text \<open>A handle of the CPU backend holds its host batch.\<close>

definition host_holds :: "'g device_batch \<Rightarrow> batch \<Rightarrow> bool" where
  "host_holds d b \<longleftrightarrow> db_inner d = BatchHost b"

lemma host_holds_from_host [simp]: "host_holds (from_host b) b' \<longleftrightarrow> b = b'"
  by (simp add: host_holds_def from_host_def)

lemma host_batch_holds: "host_holds d b \<Longrightarrow> host_batch d = Inr b"
  by (simp add: host_batch_def batch_as_host_def host_holds_def)

lemmas cpu_backend_defs = cpu_backend_def cpu_upload_def cpu_download_def cpu_filter_project_def
  cpu_hash_join_def cpu_aggregate_def cpu_vector_distance_def

text \<open>The CPU backend conforms exactly, on every stream and for every iteration order of the hash maps.\<close>

lemma vector_distance_nonempty:
  assumes "arrow_compute A" and "vector_distance A b i q m n = Inr r"
  shows "columns r \<noteq> []"
proof -
  let ?new = "\<lambda>col. columns b @ [float32_array (map (map_option (\<lambda>c. distance m (cell_vec c) q)) (cells col))]"
  obtain col where "get_column b i = Inr col" using assms(2) by (auto simp: vector_distance_def result_simps)
  then have "a_try_new A (schema b @ [Field n Float32 True]) (?new col) = Inr r"
    using assms(2) by (cases "arr_type col") (auto simp: vector_distance_def split: if_split_asm)
  then have "r = \<lparr>schema = schema b @ [Field n Float32 True], columns = ?new col, num_rows = new_rows (?new col)\<rparr>"
    using arrow_compute.try_new_ok [OF assms(1), of "?new col"] arrow_compute.try_new_err [OF assms(1), of "?new col"]
    by (metis Inr_inject Inr_Inl_False snoc_eq_iff_butlast)
  then show ?thesis by simp
qed

lemma cpu_conforms:
  assumes "arrow_compute A" and "permutes_list ord"
  shows "conforming_backend A (cpu_backend ord A) host_holds (=) (=) (unlimited n)"
proof (intro conforming_backend.intro conforming_backend_axioms.intro assms(1))
  fix t lkey rkey lk rk bl br and dl dr d' :: "'b device_batch" and w w' :: 'a
  assume holds: "host_holds dl bl" "host_holds dr br" and ok: "batch_ok bl" "batch_ok br"
      "key_column bl lkey lk" "key_column br rkey rk" "num_rows bl \<le> Suc u32_max" "num_rows br \<le> u32_max"
    and "be_hash_join (cpu_backend ord A) t dl dr lkey rkey w = (Inr d', w')"
  then show "\<exists>ps. mset ps = mset (nested_loop lk rk) \<and>
      host_holds d' (joined_batch bl br ps [0..<length (columns bl) + length (columns br)])"
    using arrow_compute.hash_join_rows [OF assms ok]
    by (auto simp: cpu_backend_defs result_simps host_batch_holds)
next
  fix t i q m n r b and d d' :: "'b device_batch" and w w' :: 'a
  assume "host_holds d b" and "be_vector_distance (cpu_backend ord A) t d i q m n w = (Inr d', w')"
    and "vector_distance A b i q m n = Inr r"
  then show "\<exists>r'. host_holds d' r' \<and> columns r' \<noteq> [] \<and> last (columns r) = last (columns r')"
    using vector_distance_nonempty [OF assms(1)]
    by (auto simp: cpu_backend_defs result_simps host_batch_holds)
qed (auto simp: cpu_backend_defs result_simps host_batch_holds)

interpretation cpu_ref: conforming_backend arrow_ref "cpu_backend rev arrow_ref" host_holds "(=)" "(=)" "unlimited u32_max"
  by (rule cpu_conforms [OF aref.arrow_compute_axioms]) (simp add: permutes_list_def)

section \<open>Properties\<close>

fun kind_available :: "('w, 't, 'd) machine \<Rightarrow> backend_kind \<Rightarrow> bool" where
  "kind_available m CpuSimd = True"
| "kind_available m Cuda = cuda_available m"
| "kind_available m Metal = metal_available m"

fun kind_feature :: "('w, 't, 'd) machine \<Rightarrow> backend_kind \<Rightarrow> bool" where
  "kind_feature m CpuSimd = True"
| "kind_feature m Cuda = cuda_feature m"
| "kind_feature m Metal = metal_feature m"

text \<open>
  C28: A requested backend is never replaced: if a non-blank name is requested, then the backend
  selected is of exactly that kind; a backend that the machine or the build lacks is a device error
  that names it and says which of the two is missing, and never the CPU backend.
\<close>

theorem selection_honours_request:
  assumes "trim name \<noteq> []" and "from_str_backend (trim name) = Inr k"
    and "\<forall>b. cuda_new m = Inr b \<longrightarrow> be_kind b = Cuda" and "\<forall>b. metal_new m = Inr b \<longrightarrow> be_kind b = Metal"
  shows "(\<forall>b. select_with ord A m (Some name) = Inr b \<longrightarrow> be_kind b = k) \<and>
    (kind_available m k \<or> select_with ord A m (Some name) = Inl (unavailable k (kind_feature m k)))"
  using assms
  by (cases k) (auto simp: select_with_def Let_def availability_of_def instantiate_cuda_def instantiate_metal_def
      cpu_backend_def cuda_available_def metal_available_def split: if_splits)

definition no_gpu_machine :: "(unit, device_stream, unit device_batch) machine" where
  "no_gpu_machine = \<lparr>cuda_feature = True, cuda_probe = False, cuda_new = Inl (Plan []),
     metal_feature = False, metal_probe = False, metal_new = Inl (Plan [])\<rparr>"

theorem selection_honours_request_witness:
  "select_with rev arrow_ref no_gpu_machine (Some '' CUDA '') = Inl (unavailable Cuda True)"
proof -
  have "from_str_backend (trim '' CUDA '') = Inr Cuda" "trim '' CUDA '' \<noteq> []" by code_simp+
  then show ?thesis
    using selection_honours_request [of "'' CUDA ''" Cuda no_gpu_machine rev arrow_ref]
    by (simp add: no_gpu_machine_def cuda_available_def)
qed

lemma buf_write_slice:
  assumes "ab_len b \<le> length (ab_bytes b)" and "length bs \<le> ab_len b"
  shows "buf_as_slice (buf_write bs b) = Some (bs @ drop (length bs) (take (ab_len b) (ab_bytes b)))"
  using assms by (simp add: buf_as_slice_def buf_write_def drop_take)

text \<open>
  C29: Transfers lose nothing: bytes copied from a host buffer to a device buffer of the CPU backend
  with room for them are the prefix of the device buffer, its other bytes are kept, and copying the
  device buffer back to a host buffer with room for it gives the whole contents.
\<close>

theorem copy_roundtrip:
  assumes "host_as_slice pinned src = Inr bytes" and "length bytes \<le> ab_len d" and "buf_as_slice d = Some old"
    and "ab_len d \<le> ab_len h" and "ab_len h \<le> length (ab_bytes h)"
  shows "\<exists>dst back. cpu_copy_h2d pinned cpu_create_stream src
       \<lparr>dbuf_backend = CpuSimd, dbuf_len = n, dbuf_inner = BufferHost d\<rparr> = Inr dst
     \<and> cpu_copy_d2h pinned write_pinned cpu_create_stream dst \<lparr>ha_class = Pageable, ha_inner = InnerPageable h\<rparr> = Inr back
     \<and> map_res (take (ab_len d)) (host_as_slice pinned back) = Inr (bytes @ drop (length bytes) old)"
proof -
  have d: "ab_len d \<le> length (ab_bytes d)" "old = take (ab_len d) (ab_bytes d)"
    using assms(3) by (auto simp: buf_as_slice_def split: if_splits)
  have h: "buf_as_slice h = Some (take (ab_len h) (ab_bytes h))" using assms(5) by (simp add: buf_as_slice_def)
  show ?thesis
    using assms(1,2,4,5) d h buf_write_slice [OF d(1) assms(2)]
      buf_write_slice [of h "bytes @ drop (length bytes) old"]
    by (simp add: cpu_copy_h2d_def cpu_copy_d2h_def check_stream_def cpu_create_stream_def buffer_as_host_def
        host_as_slice_def)
qed

definition sample_buf :: "nat \<Rightarrow> byte list \<Rightarrow> aligned_buf" where
  "sample_buf len bs = \<lparr>ab_ptr = 64, ab_size = length bs, ab_align = 64, ab_len = len, ab_bytes = bs\<rparr>"

definition no_pinned :: "unit \<Rightarrow> engine_error + byte list" where
  "no_pinned p = Inl (Plan [])"

theorem copy_roundtrip_witness:
  "\<exists>(dst :: unit device_buffer) back. cpu_copy_h2d no_pinned cpu_create_stream
       \<lparr>ha_class = Pageable, ha_inner = InnerPageable (sample_buf 2 ([1, 2] @ replicate 62 0))\<rparr>
       \<lparr>dbuf_backend = CpuSimd, dbuf_len = 3, dbuf_inner = BufferHost (sample_buf 3 (replicate 128 7))\<rparr> = Inr dst
     \<and> cpu_copy_d2h no_pinned (\<lambda>_ p. p) cpu_create_stream dst
         \<lparr>ha_class = Pageable, ha_inner = InnerPageable (sample_buf 3 (replicate 64 0))\<rparr> = Inr back
     \<and> map_res (take 3) (host_as_slice no_pinned back) = Inr [1, 2, 7]"
proof -
  have "host_as_slice no_pinned \<lparr>ha_class = Pageable, ha_inner = InnerPageable (sample_buf 2 ([1, 2] @ replicate 62 0))\<rparr>
      = Inr [1, 2]"
    by (simp add: host_as_slice_def buf_as_slice_def sample_buf_def numeral_2_eq_2)
  moreover have "buf_as_slice (sample_buf 3 (replicate 128 7)) = Some [7, 7, 7]"
    by (simp add: buf_as_slice_def sample_buf_def numeral_3_eq_3)
  moreover have "ab_len (sample_buf n bs) = n" "ab_bytes (sample_buf n bs) = bs" for n bs
    by (simp_all add: sample_buf_def)
  ultimately show ?thesis
    using copy_roundtrip [of no_pinned "\<lparr>ha_class = Pageable, ha_inner = InnerPageable (sample_buf 2 ([1, 2] @ replicate 62 0))\<rparr>"
      "[1, 2]" "sample_buf 3 (replicate 128 7)" "[7, 7, 7]" "sample_buf 3 (replicate 64 0)" 3 "\<lambda>_ p. p", where 'b = unit]
    by simp
qed

end
