(* ===== verification/Telemetry_Hub.thy ===== *)
theory Telemetry_Hub
  imports Ieee_Floats
begin

text \<open>
  The telemetry hub (\<open>crates/oxidelake-core/src/telemetry.rs\<close>): operator counters, tier gauges, spill
  counters, the bounded registries of operators and placement notes, snapshots and the Prometheus
  text.  The atomics are 64-bit counters whose additions wrap; a hub operation is one function of
  the hub.  An operator's live handle shares its counters with the registry: \<open>with_operator\<close> is a
  write through the handle with the given id.
\<close>

section \<open>Counters and gauges\<close>

datatype memory_tier = TDevice | THost | TDisk

fun tier_index :: "memory_tier \<Rightarrow> nat" where
  "tier_index TDevice = 0"
| "tier_index THost = 1"
| "tier_index TDisk = 2"

record operator_stats =
  os_id :: nat
  os_name :: string
  os_backend :: backend_kind
  os_rows_in :: nat
  os_rows_out :: nat
  os_batches :: nat
  os_elapsed_ns :: nat
  os_bytes_h2d :: nat
  os_bytes_d2h :: nat
  os_memory_bytes :: nat
  os_fallback_batches :: nat

definition operator_stats_new :: "nat \<Rightarrow> string \<Rightarrow> backend_kind \<Rightarrow> operator_stats" where
  "operator_stats_new i n b = \<lparr>os_id = i, os_name = n, os_backend = b, os_rows_in = 0, os_rows_out = 0,
     os_batches = 0, os_elapsed_ns = 0, os_bytes_h2d = 0, os_bytes_d2h = 0, os_memory_bytes = 0,
     os_fallback_batches = 0\<rparr>"

definition record_batch :: "nat \<Rightarrow> nat \<Rightarrow> nat \<Rightarrow> operator_stats \<Rightarrow> operator_stats" where
  "record_batch rows_in rows_out elapsed st = st\<lparr>
     os_rows_in := u64_add (os_rows_in st) rows_in,
     os_rows_out := u64_add (os_rows_out st) rows_out,
     os_batches := u64_add (os_batches st) 1,
     os_elapsed_ns := u64_add (os_elapsed_ns st) (min elapsed u64_max)\<rparr>"

definition record_transfer :: "nat \<Rightarrow> nat \<Rightarrow> operator_stats \<Rightarrow> operator_stats" where
  "record_transfer h2d d2h st = st\<lparr>os_bytes_h2d := u64_add (os_bytes_h2d st) h2d,
     os_bytes_d2h := u64_add (os_bytes_d2h st) d2h\<rparr>"

definition set_memory_bytes :: "nat \<Rightarrow> operator_stats \<Rightarrow> operator_stats" where
  "set_memory_bytes bytes st = st\<lparr>os_memory_bytes := bytes\<rparr>"

definition record_fallback :: "operator_stats \<Rightarrow> operator_stats" where
  "record_fallback st = st\<lparr>os_fallback_batches := u64_add (os_fallback_batches st) 1\<rparr>"

definition fell_back_entirely :: "operator_stats \<Rightarrow> bool" where
  "fell_back_entirely st = (os_batches st > 0 \<and> os_fallback_batches st \<ge> os_batches st)"

definition f64_of_u64 :: "nat \<Rightarrow> f64" where
  "f64_of_u64 n = of_nat (encode_round binary64 False n 0 False)"

definition f64_div :: "f64 \<Rightarrow> f64 \<Rightarrow> f64" where
  "f64_div a b = of_nat (fdiv binary64 (val64 a) (val64 b))"

definition mean_batch_latency_ms :: "operator_stats \<Rightarrow> f64" where
  "mean_batch_latency_ms st =
    (if os_batches st = 0 then f64_zero
     else f64_div (f64_div (f64_of_u64 (os_elapsed_ns st)) (f64_of_u64 (os_batches st))) (f64_of_u64 1000000))"

type_synonym tier_gauges = "nat list"

definition gauge_set :: "memory_tier \<Rightarrow> nat \<Rightarrow> tier_gauges \<Rightarrow> tier_gauges" where
  "gauge_set t bytes g = g[tier_index t := bytes]"

definition gauge_add :: "memory_tier \<Rightarrow> nat \<Rightarrow> tier_gauges \<Rightarrow> tier_gauges" where
  "gauge_add t bytes g = g[tier_index t := u64_add (g ! tier_index t) bytes]"

definition gauge_sub :: "memory_tier \<Rightarrow> nat \<Rightarrow> tier_gauges \<Rightarrow> tier_gauges" where
  "gauge_sub t bytes g = g[tier_index t := u64_saturating_sub (g ! tier_index t) bytes]"

definition gauge_get :: "memory_tier \<Rightarrow> tier_gauges \<Rightarrow> nat" where
  "gauge_get t g = g ! tier_index t"

record tier_snapshot =
  device_bytes :: nat
  host_bytes :: nat
  disk_bytes :: nat

definition gauge_snapshot :: "tier_gauges \<Rightarrow> tier_snapshot" where
  "gauge_snapshot g = \<lparr>device_bytes = gauge_get TDevice g, host_bytes = gauge_get THost g,
                       disk_bytes = gauge_get TDisk g\<rparr>"

record spill_counters =
  demotions :: nat
  promotions :: nat
  spilled_bytes :: nat
  reloaded_bytes :: nat

definition record_demotion :: "nat \<Rightarrow> spill_counters \<Rightarrow> spill_counters" where
  "record_demotion bytes c = c\<lparr>demotions := u64_add (demotions c) 1,
     spilled_bytes := u64_add (spilled_bytes c) bytes\<rparr>"

definition record_promotion :: "nat \<Rightarrow> spill_counters \<Rightarrow> spill_counters" where
  "record_promotion bytes c = c\<lparr>promotions := u64_add (promotions c) 1,
     reloaded_bytes := u64_add (reloaded_bytes c) bytes\<rparr>"

record tier_capacity =
  cap_device_bytes :: "nat option"
  cap_host_bytes :: "nat option"
  spill_on_query_path :: bool

record plan_node_summary =
  pn_depth :: nat
  pn_name :: string
  pn_backend :: backend_kind
  pn_detail :: string

record placement_skip =
  skip_node :: string
  skip_reason :: message

section \<open>The hub\<close>

definition MAX_PLACEMENT_SKIPS :: nat where "MAX_PLACEMENT_SKIPS = 256"
definition MAX_OPERATORS :: nat where "MAX_OPERATORS = 4096"

record hub =
  operators :: "operator_stats list"
  next_operator_id :: nat
  hub_tiers :: tier_gauges
  hub_spill :: spill_counters
  hub_plan :: "plan_node_summary list"
  hub_skips :: "placement_skip list"
  hub_capacity :: tier_capacity

definition hub_new :: hub where
  "hub_new = \<lparr>operators = [], next_operator_id = 0, hub_tiers = [0, 0, 0],
     hub_spill = \<lparr>demotions = 0, promotions = 0, spilled_bytes = 0, reloaded_bytes = 0\<rparr>,
     hub_plan = [], hub_skips = [],
     hub_capacity = \<lparr>cap_device_bytes = None, cap_host_bytes = None, spill_on_query_path = False\<rparr>\<rparr>"

definition register_operator :: "string \<Rightarrow> backend_kind \<Rightarrow> hub \<Rightarrow> operator_stats \<times> hub" where
  "register_operator name b h =
    (let i = next_operator_id h;
         stats = operator_stats_new i name b;
         ops = (if length (operators h) \<ge> MAX_OPERATORS then tl (operators h) else operators h) in
     (stats, h\<lparr>next_operator_id := u64_add i 1, operators := ops @ [stats]\<rparr>))"

definition with_operator :: "nat \<Rightarrow> (operator_stats \<Rightarrow> operator_stats) \<Rightarrow> hub \<Rightarrow> hub" where
  "with_operator i f h = h\<lparr>operators := map (\<lambda>st. if os_id st = i then f st else st) (operators h)\<rparr>"

definition clear_operators :: "hub \<Rightarrow> hub" where
  "clear_operators h = h\<lparr>operators := []\<rparr>"

definition record_skip :: "string \<Rightarrow> message \<Rightarrow> hub \<Rightarrow> hub" where
  "record_skip node reason h =
    (if length (hub_skips h) \<ge> MAX_PLACEMENT_SKIPS then h
     else h\<lparr>hub_skips := hub_skips h @ [\<lparr>skip_node = node, skip_reason = reason\<rparr>]\<rparr>)"

definition clear_skips :: "hub \<Rightarrow> hub" where
  "clear_skips h = h\<lparr>hub_skips := []\<rparr>"

definition set_plan :: "plan_node_summary list \<Rightarrow> hub \<Rightarrow> hub" where
  "set_plan nodes h = h\<lparr>hub_plan := nodes\<rparr>"

definition set_capacity :: "tier_capacity \<Rightarrow> hub \<Rightarrow> hub" where
  "set_capacity c h = h\<lparr>hub_capacity := c\<rparr>"

record telemetry_snapshot =
  snap_operators :: "operator_stats list"
  snap_tiers :: tier_snapshot
  snap_spill :: spill_counters
  snap_plan :: "plan_node_summary list"
  snap_capacity :: tier_capacity

definition hub_snapshot :: "hub \<Rightarrow> telemetry_snapshot" where
  "hub_snapshot h = \<lparr>snap_operators = operators h, snap_tiers = gauge_snapshot (hub_tiers h),
     snap_spill = hub_spill h, snap_plan = hub_plan h, snap_capacity = hub_capacity h\<rparr>"

section \<open>Prometheus text\<close>

abbreviation newline :: char where "newline \<equiv> CHR 0x0A"
abbreviation quote :: char where "quote \<equiv> CHR 0x22"
abbreviation backslash :: char where "backslash \<equiv> CHR 0x5C"

fun escape_label :: "string \<Rightarrow> string" where
  "escape_label [] = []"
| "escape_label (c # cs) =
     (if c = backslash then [backslash, backslash]
      else if c = quote then [backslash, quote]
      else if c = newline then [backslash, CHR ''n'']
      else [c]) @ escape_label cs"

definition metric_header :: "string \<Rightarrow> string \<Rightarrow> string \<Rightarrow> string" where
  "metric_header name help kind = ''# HELP '' @ name @ '' '' @ help @ [newline] @
     ''# TYPE '' @ name @ '' '' @ kind @ [newline]"

definition metric_line :: "string \<Rightarrow> operator_stats \<Rightarrow> nat \<Rightarrow> string" where
  "metric_line name st v = name @ ''{operator='' @ [quote] @ escape_label (os_name st) @ [quote] @
     '',backend='' @ [quote] @ as_str (os_backend st) @ [quote] @ ''} '' @ show_nat v @ [newline]"

definition operator_counters :: "(string \<times> string \<times> (operator_stats \<Rightarrow> nat)) list" where
  "operator_counters =
    [(''oxide_operator_rows_in_total'', ''Input rows.'', os_rows_in),
     (''oxide_operator_rows_out_total'', ''Output rows.'', os_rows_out),
     (''oxide_operator_batches_total'', ''Batches processed.'', os_batches),
     (''oxide_operator_fallback_batches_total'',
      ''Batches that ran on the CPU reference although the operator was placed on a device.'', os_fallback_batches),
     (''oxide_operator_elapsed_nanoseconds_total'', ''Processing time.'', os_elapsed_ns),
     (''oxide_operator_bytes_h2d_total'', ''Bytes copied host to device.'', os_bytes_h2d),
     (''oxide_operator_bytes_d2h_total'', ''Bytes copied device to host.'', os_bytes_d2h)]"

definition to_prometheus :: "telemetry_snapshot \<Rightarrow> string" where
  "to_prometheus s =
     concat (map (\<lambda>(name, help, value). metric_header name help ''counter'' @
               concat (map (\<lambda>st. metric_line name st (value st)) (snap_operators s))) operator_counters) @
     metric_header ''oxide_operator_memory_bytes'' ''Currently allocated bytes.'' ''gauge'' @
     concat (map (\<lambda>st. metric_line ''oxide_operator_memory_bytes'' st (os_memory_bytes st)) (snap_operators s)) @
     concat (map (\<lambda>(name, v). metric_header name ''Bytes resident in this memory tier.'' ''gauge'' @
               name @ '' '' @ show_nat v @ [newline])
       [(''oxide_tier_device_bytes'', device_bytes (snap_tiers s)),
        (''oxide_tier_host_bytes'', host_bytes (snap_tiers s)),
        (''oxide_tier_disk_bytes'', disk_bytes (snap_tiers s))]) @
     concat (map (\<lambda>(name, v). metric_header name ''Spill manager activity.'' ''counter'' @
               name @ '' '' @ show_nat v @ [newline])
       [(''oxide_spill_demotions_total'', demotions (snap_spill s)),
        (''oxide_spill_promotions_total'', promotions (snap_spill s)),
        (''oxide_spill_spilled_bytes_total'', spilled_bytes (snap_spill s)),
        (''oxide_spill_reloaded_bytes_total'', reloaded_bytes (snap_spill s))])"

section \<open>Lemmas\<close>

text \<open>Registering a list of operators, one after the other.\<close>

definition register_all :: "(string \<times> backend_kind) list \<Rightarrow> hub \<Rightarrow> hub" where
  "register_all rs h = foldl (\<lambda>h (n, b). snd (register_operator n b h)) h rs"

definition numbered :: "nat \<Rightarrow> (string \<times> backend_kind) list \<Rightarrow> operator_stats list" where
  "numbered i rs = map (\<lambda>(j, n, b). operator_stats_new j n b) (enumerate i rs)"

definition hub_ok :: "hub \<Rightarrow> bool" where
  "hub_ok h = (length (operators h) \<le> MAX_OPERATORS \<and> length (hub_skips h) \<le> MAX_PLACEMENT_SKIPS \<and>
     length (hub_tiers h) = 3 \<and> sorted_wrt (<) (map os_id (operators h)) \<and>
     (\<forall>x \<in> set (operators h). os_id x < next_operator_id h))"

lemma register_all_snoc: "register_all (rs @ [r]) h = snd (register_operator (fst r) (snd r) (register_all rs h))"
  by (simp add: register_all_def split_def)

lemma numbered_snoc: "numbered i (rs @ [r]) = numbered i rs @ [operator_stats_new (i + length rs) (fst r) (snd r)]"
  by (simp add: numbered_def enumerate_append_eq split_def)

lemma length_numbered [simp]: "length (numbered i rs) = length rs"
  by (simp add: numbered_def)

lemma register_all_recent:
  assumes "length rs \<le> u64_max"
  shows "operators (register_all rs hub_new) = drop (length rs - MAX_OPERATORS) (numbered 0 rs)
    \<and> next_operator_id (register_all rs hub_new) = length rs"
  using assms
proof (induction rs rule: rev_induct)
  case Nil
  show ?case by (simp add: register_all_def hub_new_def numbered_def)
next
  case (snoc r rs)
  then have IH: "operators (register_all rs hub_new) = drop (length rs - MAX_OPERATORS) (numbered 0 rs)"
    "next_operator_id (register_all rs hub_new) = length rs" by simp_all
  have "u64_add (length rs) 1 = Suc (length rs)" using snoc.prems by (simp add: u64_add_exact)
  moreover have "tl (drop (length rs - MAX_OPERATORS) (numbered 0 rs)) = drop (Suc (length rs) - MAX_OPERATORS) (numbered 0 rs)"
    if "MAX_OPERATORS \<le> length rs" using that by (simp add: drop_Suc tl_drop Suc_diff_le)
  ultimately show ?case
    using IH by (auto simp: register_all_snoc register_operator_def Let_def numbered_snoc MAX_OPERATORS_def)
qed

lemma hub_new_ok: "hub_ok hub_new"
  by (simp add: hub_ok_def hub_new_def)

lemma register_operator_ok:
  assumes "hub_ok h" and "next_operator_id h < u64_max"
  shows "hub_ok (snd (register_operator name b h))"
proof -
  have "u64_add (next_operator_id h) 1 = Suc (next_operator_id h)" using assms(2) by (simp add: u64_add_exact)
  moreover have "sorted_wrt (<) (map os_id (tl (operators h)))"
    using assms(1) by (cases "operators h") (auto simp: hub_ok_def)
  moreover have "set (tl (operators h)) \<subseteq> set (operators h)" by (cases "operators h") auto
  ultimately show ?thesis using assms(1)
    by (auto simp: hub_ok_def register_operator_def Let_def operator_stats_new_def sorted_wrt_append
        MAX_OPERATORS_def less_Suc_eq)
qed

definition record_skips :: "(string \<times> message) list \<Rightarrow> hub \<Rightarrow> hub" where
  "record_skips xs h = foldl (\<lambda>h (n, r). record_skip n r h) h xs"

lemma record_skips_first:
  "hub_skips (record_skips xs (clear_skips h))
    = take MAX_PLACEMENT_SKIPS (map (\<lambda>(n, r). \<lparr>skip_node = n, skip_reason = r\<rparr>) xs)"
proof (induction xs rule: rev_induct)
  case (snoc x xs)
  then show ?case by (auto simp: record_skips_def record_skip_def split_def)
qed (simp add: record_skips_def clear_skips_def)

section \<open>Escaping\<close>

fun unescape_label :: "string \<Rightarrow> string" where
  "unescape_label (c # d # cs) =
     (if c = backslash then (if d = CHR ''n'' then newline else d) # unescape_label cs
      else c # unescape_label (d # cs))"
| "unescape_label cs = cs"

lemma unescape_escape: "unescape_label (escape_label s) = s"
proof (induction s)
  case (Cons c cs)
  show ?case
  proof (cases "c = backslash \<or> c = quote \<or> c = newline")
    case False
    then show ?thesis using Cons by (cases "escape_label cs") auto
  qed (use Cons in auto)
qed simp

lemma escape_no_newline: "newline \<notin> set (escape_label s)"
  by (induction s) auto

lemma show_nat_digits: "set (show_nat n) \<subseteq> {c. 48 \<le> (of_char c :: nat) \<and> (of_char c :: nat) < 58}"
proof (induction n rule: show_nat.induct)
  case (1 n)
  have d: "48 \<le> (of_char (char_of (48 + m) :: char) :: nat) \<and> (of_char (char_of (48 + m) :: char) :: nat) < 58"
    if "m < 10" for m :: nat using that by simp
  show ?case
  proof (cases "n < 10")
    case True
    then show ?thesis using d [of n] by (subst show_nat.simps) simp
  next
    case False
    then show ?thesis using 1 d [of "n mod 10"] by (subst show_nat.simps) auto
  qed
qed

lemma show_nat_no_newline: "newline \<notin> set (show_nat n)"
  using show_nat_digits [of n] by auto

lemma as_str_no_newline: "newline \<notin> set (as_str b)"
  by (cases b) simp_all

lemma count_newline_metric_line:
  "newline \<notin> set name \<Longrightarrow> count_list (metric_line name st v) newline = 1"
  by (simp add: metric_line_def count_list_0_iff escape_no_newline as_str_no_newline show_nat_no_newline)

lemma count_newline_metric_header:
  "newline \<notin> set name \<Longrightarrow> newline \<notin> set help \<Longrightarrow> newline \<notin> set kind
    \<Longrightarrow> count_list (metric_header name help kind) newline = 2"
  by (simp add: metric_header_def count_list_0_iff)

lemma count_newline_operator_lines:
  "newline \<notin> set name \<Longrightarrow>
   count_list (concat (map (\<lambda>st. metric_line name st (v st)) os)) newline = length os"
  by (induction os) (simp_all add: count_newline_metric_line)

lemma count_newline_prometheus:
  "count_list (to_prometheus s) newline = 8 * (length (snap_operators s) + 2) + 21"
  by (simp add: to_prometheus_def operator_counters_def count_newline_operator_lines
      count_newline_metric_header count_list_0_iff show_nat_no_newline)

section \<open>Properties\<close>

text \<open>
  C15: The operator registry is a sliding window: after any number of registrations on a fresh hub a
  snapshot shows exactly the most recent 4096 of them, in registration order, each with the number
  of registrations before it as its id.
\<close>

theorem registry_window:
  assumes "length rs \<le> u64_max"
  shows "snap_operators (hub_snapshot (register_all rs hub_new)) = drop (length rs - 4096) (numbered 0 rs)"
  using register_all_recent [OF assms] by (simp add: hub_snapshot_def MAX_OPERATORS_def)

theorem registry_window_witness:
  "map os_id (snap_operators (hub_snapshot (register_all [(''GpuFilterExec'', Cuda), (''GpuHashJoinExec'', Metal)] hub_new)))
   = [0, 1]"
  using registry_window [of "[(''GpuFilterExec'', Cuda), (''GpuHashJoinExec'', Metal)]"]
  by (simp add: u64_max_def numbered_def enumerate_eq_zip operator_stats_new_def)

text \<open>
  C16: The placement notes of a planning run are the first 256 recorded since they were cleared, in
  order; later ones are dropped.
\<close>

theorem skips_first_256:
  "hub_skips (record_skips xs (clear_skips h)) = take 256 (map (\<lambda>(n, r). \<lparr>skip_node = n, skip_reason = r\<rparr>) xs)"
  using record_skips_first [of xs h] by (simp add: MAX_PLACEMENT_SKIPS_def)


end
