(* ===== verification/Gpu_Operator.thy ===== *)
theory Gpu_Operator
  imports Device_Backend Telemetry_Hub
begin

text \<open>
  The operator layer (\<open>crates/oxidelake-compute/src/operator.rs\<close>): a batch runs on the device with only
  the columns the kernel reads, the other columns are gathered on the host by row id, an \<open>Unsupported\<close>
  answer falls back to the CPU kernels, and every batch is counted.

  The operator is the record \<open>gpu_operator\<close>; its counters are the handle it shares with the telemetry
  hub, \<open>op_log\<close> holds the warnings written and \<open>op_world\<close> the state of the driver.  The backend is an
  argument, as is the time a batch took.
\<close>

section \<open>Column plumbing\<close>

definition ROW_ID :: string where "ROW_ID = ''__oxide_row''"

definition device_eligible :: "data_type \<Rightarrow> bool" where
  "device_eligible dt = (dt = Int64 \<or> dt = Float64 \<or> dt = Float32 \<or> vector_dimension dt \<noteq> None)"

definition push_unique :: "nat list \<Rightarrow> nat \<Rightarrow> nat list" where
  "push_unique cols index = (if index \<in> set cols then cols else cols @ [index])"

definition field_at :: "field list \<Rightarrow> nat \<Rightarrow> field result" where
  "field_at fs index = (if index < length fs then Inr (fs ! index)
     else fail (Plan [Txt ''column index '', Num index, Txt '' out of range for a batch with '',
                      Num (length fs), Txt '' columns'']))"

text \<open>\<open>RecordBatch::column\<close> panics out of range.\<close>

definition column_at :: "batch \<Rightarrow> nat \<Rightarrow> array result" where
  "column_at b i = (if i < length (columns b) then Inr (columns b ! i) else Inl (Panic ''index out of bounds''))"

record side_plan =
  device_cols :: "nat list"
  row_ids :: bool

primrec position :: "nat list \<Rightarrow> nat \<Rightarrow> nat option" where
  "position [] x = None"
| "position (c # cs) x = (if c = x then Some 0 else map_option Suc (position cs x))"

definition plan_position :: "side_plan \<Rightarrow> nat \<Rightarrow> nat option" where
  "plan_position plan original = position (device_cols plan) original"

definition row_id_position :: "side_plan \<Rightarrow> nat option" where
  "row_id_position plan = (if row_ids plan then Some (length (device_cols plan)) else None)"

definition sub_batch :: "arrow_ops \<Rightarrow> side_plan \<Rightarrow> batch \<Rightarrow> batch result" where
  "sub_batch A plan b =
     and_then (collect_res (\<lambda>i. and_then (field_at (schema b) i) (\<lambda>f. map_res (Pair f) (column_at b i)))
       (device_cols plan)) (\<lambda>cols.
     and_then (if row_ids plan
               then if num_rows b < 2 ^ 63
                    then Inr (cols @ [(Field ROW_ID Int64 False, row_id_array [0..<num_rows b])])
                    else fail (Execution [Txt ''batch exceeds i64::MAX rows''])
               else Inr cols) (\<lambda>cols.
     lift_arrow (a_try_new A (map fst cols) (map snd cols))))"

fun remap_predicate :: "predicate \<Rightarrow> side_plan \<Rightarrow> predicate result" where
  "remap_predicate (Compare column op lit) plan =
     map_res (\<lambda>c. Compare c op lit)
       (ok_or (plan_position plan column)
         (Err (Plan [Txt ''predicate column '', Num column, Txt '' missing from device plan''])))"
| "remap_predicate (And l r) plan =
     and_then (remap_predicate l plan) (\<lambda>l'.
     and_then (remap_predicate r plan) (\<lambda>r'. Inr (And l' r')))"

definition take_rows :: "arrow_ops \<Rightarrow> array \<Rightarrow> array \<Rightarrow> array result" where
  "take_rows A c ids = lift_arrow (a_take_ids A c ids)"

definition missing_ids :: fault where
  "missing_ids = Err (Execution [Txt ''row ids missing for host gather''])"

section \<open>State\<close>

record join_build =
  jb_batch :: batch
  jb_key :: nat
  jb_table :: join_table

definition join_build_new :: "((i64 \<times> nat) list \<Rightarrow> (i64 \<times> nat) list) \<Rightarrow> batch \<Rightarrow> nat \<Rightarrow> join_build result" where
  "join_build_new ord b key = map_res (\<lambda>t. \<lparr>jb_batch = b, jb_key = key, jb_table = t\<rparr>) (table_build ord b key)"

record 'd device_build =
  dv_plan :: side_plan
  dv_batch :: 'd

record ('w, 't, 'd) gpu_operator =
  op_streams :: "'t list"
  op_next :: nat
  op_stats :: "operator_stats option"
  op_build :: "'d device_build option"
  op_warned :: bool
  op_log :: "engine_error list"
  op_world :: 'w

datatype device_outcome = Ran batch "nat \<times> nat" | Declined engine_error

definition on_world :: "('w, 'a) call \<Rightarrow> (('w, 't, 'd) gpu_operator, 'a) call" where
  "on_world f st = (case f (op_world st) of (r, w) \<Rightarrow> (r, st\<lparr>op_world := w\<rparr>))"

definition operator_new :: "('w, 't, 'd) gpu_backend \<Rightarrow> operator_stats option \<Rightarrow> 'w
    \<Rightarrow> ('w, 't, 'd) gpu_operator result \<times> 'w" where
  "operator_new B stats w =
     call_then (be_create_stream B) (\<lambda>s.
     call_then (if is_gpu (be_kind B) then call_then (be_create_stream B) (\<lambda>s'. pure_call (Inr [s, s']))
                else pure_call (Inr [s])) (\<lambda>streams w.
     (Inr \<lparr>op_streams = streams, op_next = 0, op_stats = stats, op_build = None, op_warned = False,
           op_log = [], op_world = w\<rparr>, w))) w"

definition stream :: "(('w, 't, 'd) gpu_operator, 't) call" where
  "stream st =
    (let st' = st\<lparr>op_next := u64_add (op_next st) 1\<rparr> in
     if op_streams st = [] then (Inl (Panic ''remainder by zero''), st')
     else (Inr (op_streams st ! (op_next st mod length (op_streams st))), st'))"

definition record_run :: "nat \<Rightarrow> batch \<Rightarrow> nat \<Rightarrow> (nat \<times> nat) option \<Rightarrow> ('w, 't, 'd) gpu_operator
    \<Rightarrow> ('w, 't, 'd) gpu_operator" where
  "record_run rows_in out elapsed moved st = st\<lparr>op_stats := map_option (\<lambda>s.
     let s = record_batch rows_in (num_rows out) elapsed s in
     (case moved of Some (h2d, d2h) \<Rightarrow> record_transfer h2d d2h s | None \<Rightarrow> s)) (op_stats st)\<rparr>"

definition try_device :: "arrow_ops \<Rightarrow> ('t \<Rightarrow> (('w, 't, 'd) gpu_operator, batch \<times> nat) call)
    \<Rightarrow> (('w, 't, 'd) gpu_operator, device_outcome) call" where
  "try_device A gpu = call_then stream (\<lambda>s st. case gpu s st of
      (Inr (b, h2d), st') \<Rightarrow> (Inr (Ran b (h2d, a_memory_size A b)), st')
    | (Inl (Err err), st') \<Rightarrow> if is_unsupported err then (Inr (Declined err), st') else (Inl (Err err), st')
    | (Inl (Panic m), st') \<Rightarrow> (Inl (Panic m), st'))"

definition no_device_path :: "('w, 't, 'd) gpu_backend \<Rightarrow> bool \<Rightarrow> string \<Rightarrow> engine_error option" where
  "no_device_path B supported what =
    (if \<not> is_gpu (be_kind B)
     then Some (Unsupported ''backend.device'' [Txt ''the backend selected on this machine is `'', Txt (as_str (be_kind B)),
       Txt ''`, so an operator placed on a device runs the CPU reference''])
     else if \<not> supported
     then Some (Unsupported ''backend.operation'' [Txt ''backend `'', Txt (as_str (be_kind B)),
       Txt ''` does not support '', Txt what])
     else None)"

definition fell_back :: "engine_error \<Rightarrow> ('w, 't, 'd) gpu_operator \<Rightarrow> ('w, 't, 'd) gpu_operator" where
  "fell_back why st = st\<lparr>op_stats := map_option record_fallback (op_stats st), op_warned := True,
     op_log := (if op_warned st then op_log st else op_log st @ [why])\<rparr>"

definition round_trip :: "arrow_ops \<Rightarrow> ('w, 't, 'd) gpu_backend \<Rightarrow> 't \<Rightarrow> batch \<Rightarrow> ('t \<Rightarrow> 'd \<Rightarrow> ('w, 'd) call)
    \<Rightarrow> ('w, batch \<times> nat) call" where
  "round_trip A B s sub kern =
     call_then (be_upload B s sub) (\<lambda>dev.
     call_then (kern s dev) (\<lambda>out.
     call_then (be_download B s out) (\<lambda>host.
     call_then (be_synchronize B s) (\<lambda>_.
     pure_call (Inr (host, a_memory_size A sub))))))"

text \<open>
  The frame every operation shares: decline at once where there is no device path, otherwise try the
  device; a declined batch is counted and computed by the reference; a computed batch is recorded.
\<close>

definition with_fallback :: "('w, 't, 'd) gpu_backend \<Rightarrow> bool \<Rightarrow> string
    \<Rightarrow> (('w, 't, 'd) gpu_operator, device_outcome) call \<Rightarrow> batch result \<Rightarrow> nat \<Rightarrow> nat
    \<Rightarrow> (('w, 't, 'd) gpu_operator, batch) call" where
  "with_fallback B supported what on_device reference rows_in elapsed =
     call_then (case no_device_path B supported what of
         Some why \<Rightarrow> pure_call (Inr (Declined why))
       | None \<Rightarrow> on_device) (\<lambda>outcome st.
     case outcome of
       Ran out moved \<Rightarrow> (Inr out, record_run rows_in out elapsed (Some moved) st)
     | Declined why \<Rightarrow> (let st = fell_back why st in
         case reference of
           Inl e \<Rightarrow> (Inl e, st)
         | Inr out \<Rightarrow> (Inr out, record_run rows_in out elapsed None st)))"

section \<open>Filter and projection\<close>

definition filter_plan :: "predicate \<Rightarrow> nat list \<Rightarrow> bool list \<Rightarrow> side_plan" where
  "filter_plan p projection eligible =
    \<lparr>device_cols = foldl (\<lambda>cols (i, ok). if ok then push_unique cols i else cols)
        (foldl push_unique [] (remdups_adj (pred_columns p))) (zip projection eligible),
     row_ids = list_ex Not eligible\<rparr>"

definition device_projection :: "side_plan \<Rightarrow> (nat \<times> bool) list \<Rightarrow> nat list result" where
  "device_projection plan cols =
     map_res (\<lambda>dev. dev @ (case row_id_position plan of Some pos \<Rightarrow> [pos] | None \<Rightarrow> []))
       (collect_res (\<lambda>i. ok_or (plan_position plan i)
           (Err (Plan [Txt ''projected column '', Num i, Txt '' missing from device plan''])))
         (map fst (filter snd cols)))"

fun reassemble :: "arrow_ops \<Rightarrow> batch \<Rightarrow> batch \<Rightarrow> array option \<Rightarrow> nat \<Rightarrow> (nat \<times> bool) list
    \<Rightarrow> (field \<times> array) list result" where
  "reassemble A b dev_out ids next_device [] = Inr []"
| "reassemble A b dev_out ids next_device ((i, ok) # rest) =
     and_then (field_at (schema b) i) (\<lambda>f.
     and_then (if ok then column_at dev_out next_device
               else and_then (ok_or ids missing_ids) (\<lambda>ids.
                    and_then (column_at b i) (\<lambda>c. take_rows A c ids))) (\<lambda>c.
     map_res ((#) (f, c)) (reassemble A b dev_out ids (if ok then Suc next_device else next_device) rest)))"

definition op_filter_project_on_device :: "arrow_ops \<Rightarrow> ('w, 't, 'd) gpu_backend \<Rightarrow> batch \<Rightarrow> predicate \<Rightarrow> nat list
    \<Rightarrow> (('w, 't, 'd) gpu_operator, device_outcome) call" where
  "op_filter_project_on_device A B b p projection =
     call_then (pure_call (collect_res (\<lambda>i. map_res (\<lambda>f. device_eligible (field_type f)) (field_at (schema b) i))
                             projection)) (\<lambda>eligible.
     let plan = filter_plan p projection eligible in
     call_then (pure_call (sub_batch A plan b)) (\<lambda>sub.
     call_then (pure_call (remap_predicate p plan)) (\<lambda>remapped.
     call_then (pure_call (device_projection plan (zip projection eligible))) (\<lambda>dev_projection.
     call_then (try_device A (\<lambda>s. on_world (round_trip A B s sub (\<lambda>s dev.
                  be_filter_project B s dev remapped dev_projection)))) (\<lambda>outcome.
     case outcome of
       Declined why \<Rightarrow> pure_call (Inr (Declined why))
     | Ran dev_out moved \<Rightarrow> pure_call (
         and_then (if row_ids plan
                   then map_res Some (column_at dev_out (length (columns dev_out) - 1)) else Inr None) (\<lambda>ids.
         and_then (reassemble A b dev_out ids 0 (zip projection eligible)) (\<lambda>cols.
         map_res (\<lambda>out. Ran out moved) (lift_arrow (a_try_new A (map fst cols) (map snd cols)))))))))))"

definition op_filter_project :: "arrow_ops \<Rightarrow> ('w, 't, 'd) gpu_backend \<Rightarrow> nat \<Rightarrow> batch \<Rightarrow> predicate \<Rightarrow> nat list
    \<Rightarrow> (('w, 't, 'd) gpu_operator, batch) call" where
  "op_filter_project A B elapsed b p projection =
     with_fallback B (be_supports_predicate B p) ''this predicate'' (op_filter_project_on_device A B b p projection)
       (filter_project A b p projection) (num_rows b) elapsed"

section \<open>Hash join\<close>

fun side_plan_loop :: "field list \<Rightarrow> nat list \<Rightarrow> side_plan \<Rightarrow> side_plan result" where
  "side_plan_loop fs [] plan = Inr plan"
| "side_plan_loop fs (i # rest) plan = and_then (field_at fs i) (\<lambda>f.
     side_plan_loop fs rest
       (if device_eligible (field_type f) then plan\<lparr>device_cols := push_unique (device_cols plan) i\<rparr>
        else plan\<lparr>row_ids := True\<rparr>))"

definition side_plan_for :: "field list \<Rightarrow> nat \<Rightarrow> nat list \<Rightarrow> side_plan result" where
  "side_plan_for fs key selected = side_plan_loop fs selected \<lparr>device_cols = [key], row_ids = False\<rparr>"

text \<open>The upload of the build side; \<open>OnceLock::get_or_init\<close> keeps what is already there.\<close>

definition upload_build :: "arrow_ops \<Rightarrow> ('w, 't, 'd) gpu_backend \<Rightarrow> 't \<Rightarrow> join_build \<Rightarrow> side_plan
    \<Rightarrow> (('w, 't, 'd) gpu_operator, 'd device_build) call" where
  "upload_build A B s build plan =
     call_then (pure_call (sub_batch A plan (jb_batch build))) (\<lambda>sub.
     call_then (on_world (be_upload B s sub)) (\<lambda>d.
     call_then (on_world (be_synchronize B s)) (\<lambda>_ st.
     case op_build st of
       Some old \<Rightarrow> (Inr old, st)
     | None \<Rightarrow> (let fresh = \<lparr>dv_plan = plan, dv_batch = d\<rparr> in (Inr fresh, st\<lparr>op_build := Some fresh\<rparr>)))))"

definition device_build_for :: "arrow_ops \<Rightarrow> ('w, 't, 'd) gpu_backend \<Rightarrow> 't \<Rightarrow> join_build \<Rightarrow> side_plan
    \<Rightarrow> (('w, 't, 'd) gpu_operator, 'd device_build) call" where
  "device_build_for A B s build plan st =
    (case op_build st of
       Some cached \<Rightarrow> if dv_plan cached = plan then (Inr cached, st) else upload_build A B s build plan st
     | None \<Rightarrow> upload_build A B s build plan st)"

text \<open>One output column of a join: from the device where it travelled, gathered on the host otherwise.\<close>

definition join_output :: "arrow_ops \<Rightarrow> batch \<Rightarrow> side_plan \<Rightarrow> array option \<Rightarrow> nat \<Rightarrow> batch \<Rightarrow> nat
    \<Rightarrow> (field \<times> array) result" where
  "join_output A b plan ids offset dev_out local =
     and_then (field_at (schema b) local) (\<lambda>f.
     map_res (Pair f) (case plan_position plan local of
         Some pos \<Rightarrow> column_at dev_out (offset + pos)
       | None \<Rightarrow> and_then (ok_or ids missing_ids) (\<lambda>ids.
                 and_then (column_at b local) (\<lambda>c. take_rows A c ids))))"

definition ids_column :: "batch \<Rightarrow> nat \<Rightarrow> nat option \<Rightarrow> array option result" where
  "ids_column dev_out offset pos = (case pos of
      None \<Rightarrow> Inr None
    | Some p \<Rightarrow> map_res Some (column_at dev_out (offset + p)))"

definition join_reassemble :: "arrow_ops \<Rightarrow> batch \<Rightarrow> batch \<Rightarrow> side_plan \<Rightarrow> side_plan \<Rightarrow> nat list \<Rightarrow> batch
    \<Rightarrow> batch result" where
  "join_reassemble A left right left_plan right_plan selected dev_out =
    (let width = length (schema left);
         left_width = length (device_cols left_plan) + (if row_ids left_plan then 1 else 0) in
     and_then (ids_column dev_out 0 (row_id_position left_plan)) (\<lambda>left_ids.
     and_then (ids_column dev_out left_width (row_id_position right_plan)) (\<lambda>right_ids.
     and_then (collect_res (\<lambda>index.
         if index < width then join_output A left left_plan left_ids 0 dev_out index
         else join_output A right right_plan right_ids left_width dev_out (index - width)) selected) (\<lambda>cols.
     lift_arrow (a_try_new A (map fst cols) (map snd cols))))))"

definition unwrap_or_0 :: "nat option \<Rightarrow> nat" where
  "unwrap_or_0 x = (case x of Some n \<Rightarrow> n | None \<Rightarrow> 0)"

definition op_hash_join_on_device :: "arrow_ops \<Rightarrow> ('w, 't, 'd) gpu_backend \<Rightarrow> batch \<Rightarrow> join_build \<Rightarrow> nat
    \<Rightarrow> nat list option \<Rightarrow> (('w, 't, 'd) gpu_operator, device_outcome) call" where
  "op_hash_join_on_device A B left build left_key projection =
    (let right = jb_batch build; width = length (schema left); all = width + length (schema right);
         selected = (case projection of Some js \<Rightarrow> js | None \<Rightarrow> [0..<all]) in
     case find (\<lambda>index. index \<ge> all) selected of
       Some index \<Rightarrow> pure_call (fail (Plan [Txt ''join projection index '', Num index, Txt '' out of range'']))
     | None \<Rightarrow>
     call_then (pure_call (side_plan_for (schema left) left_key (filter (\<lambda>i. i < width) selected))) (\<lambda>left_plan.
     call_then (pure_call (side_plan_for (schema right) (jb_key build)
                  (map (\<lambda>i. i - width) (filter (\<lambda>i. i \<ge> width) selected)))) (\<lambda>right_plan.
     call_then (pure_call (sub_batch A left_plan left)) (\<lambda>left_sub.
     let left_key_pos = unwrap_or_0 (plan_position left_plan left_key);
         right_key_pos = unwrap_or_0 (plan_position right_plan (jb_key build)) in
     call_then (try_device A (\<lambda>s.
        call_then (device_build_for A B s build right_plan) (\<lambda>dev_build.
        on_world (round_trip A B s left_sub (\<lambda>s dev_left.
          be_hash_join B s dev_left (dv_batch dev_build) left_key_pos right_key_pos))))) (\<lambda>outcome.
     case outcome of
       Declined why \<Rightarrow> pure_call (Inr (Declined why))
     | Ran dev_out moved \<Rightarrow> pure_call (map_res (\<lambda>out. Ran out moved)
         (join_reassemble A left right left_plan right_plan selected dev_out)))))))"

definition op_hash_join :: "arrow_ops \<Rightarrow> ('w, 't, 'd) gpu_backend \<Rightarrow> nat \<Rightarrow> batch \<Rightarrow> join_build \<Rightarrow> nat
    \<Rightarrow> nat list option \<Rightarrow> (('w, 't, 'd) gpu_operator, batch) call" where
  "op_hash_join A B elapsed left build left_key projection =
     with_fallback B (be_supports_hash_join B) ''hash joins''
       (op_hash_join_on_device A B left build left_key projection)
       (hash_join_probe A left left_key (jb_batch build) (jb_table build) projection) (num_rows left) elapsed"

section \<open>Aggregation\<close>

definition aggregate_plan :: "aggregate_spec \<Rightarrow> side_plan" where
  "aggregate_plan spec = \<lparr>device_cols = foldl push_unique [group_by spec] (map snd (aggregates spec)), row_ids = False\<rparr>"

definition remap_spec :: "side_plan \<Rightarrow> aggregate_spec \<Rightarrow> aggregate_spec" where
  "remap_spec plan spec = \<lparr>group_by = unwrap_or_0 (plan_position plan (group_by spec)),
     aggregates = map (\<lambda>(f, i). (f, unwrap_or_0 (plan_position plan i))) (aggregates spec)\<rparr>"

definition op_aggregate_on_device :: "arrow_ops \<Rightarrow> ('w, 't, 'd) gpu_backend \<Rightarrow> batch \<Rightarrow> aggregate_spec
    \<Rightarrow> (('w, 't, 'd) gpu_operator, device_outcome) call" where
  "op_aggregate_on_device A B b spec =
     call_then (pure_call (sub_batch A (aggregate_plan spec) b)) (\<lambda>sub.
     try_device A (\<lambda>s. on_world (round_trip A B s sub (\<lambda>s dev.
       be_aggregate B s dev (remap_spec (aggregate_plan spec) spec)))))"

definition op_aggregate :: "arrow_ops \<Rightarrow> ('w, 't, 'd) gpu_backend \<Rightarrow> nat \<Rightarrow> batch \<Rightarrow> aggregate_spec
    \<Rightarrow> (('w, 't, 'd) gpu_operator, batch) call" where
  "op_aggregate A B elapsed b spec =
     with_fallback B (be_supports_aggregate B) ''aggregation'' (op_aggregate_on_device A B b spec)
       (aggregate A b spec) (num_rows b) elapsed"

section \<open>Vector distance\<close>

definition op_vector_distance_on_device :: "arrow_ops \<Rightarrow> ('w, 't, 'd) gpu_backend \<Rightarrow> batch \<Rightarrow> nat \<Rightarrow> f32 list
    \<Rightarrow> distance_metric \<Rightarrow> string \<Rightarrow> (('w, 't, 'd) gpu_operator, device_outcome) call" where
  "op_vector_distance_on_device A B b column query metric output_name =
     call_then (pure_call (sub_batch A \<lparr>device_cols = [column], row_ids = False\<rparr> b)) (\<lambda>sub.
     call_then (try_device A (\<lambda>s. on_world (round_trip A B s sub (\<lambda>s dev.
       be_vector_distance B s dev 0 query metric output_name)))) (\<lambda>outcome.
     case outcome of
       Declined why \<Rightarrow> pure_call (Inr (Declined why))
     | Ran dev_out moved \<Rightarrow> pure_call (
         and_then (column_at dev_out (length (columns dev_out) - 1)) (\<lambda>dist.
         map_res (\<lambda>out. Ran out moved)
           (lift_arrow (a_try_new A (schema b @ [Field output_name Float32 True]) (columns b @ [dist])))))))"

definition op_vector_distance :: "arrow_ops \<Rightarrow> ('w, 't, 'd) gpu_backend \<Rightarrow> nat \<Rightarrow> batch \<Rightarrow> nat \<Rightarrow> f32 list
    \<Rightarrow> distance_metric \<Rightarrow> string \<Rightarrow> (('w, 't, 'd) gpu_operator, batch) call" where
  "op_vector_distance A B elapsed b column query metric output_name =
     with_fallback B True ''vector distance''
       (op_vector_distance_on_device A B b column query metric output_name)
       (vector_distance A b column query metric output_name) (num_rows b) elapsed"

end
