(* ===== verification/Operator_Correct.thy ===== *)
theory Operator_Correct
  imports Gpu_Operator
begin

text \<open>
  Correctness of the operator layer: on a backend that matches the reference kernels on the
  sub-batches it is given, every operation returns what the CPU kernel returns on the whole batch,
  whether the batch ran on the device or fell back; and the counters tell the two apart.
\<close>

section \<open>Sub-batches\<close>

lemma position_Some: "position cs x = Some k \<Longrightarrow> k < length cs \<and> cs ! k = x"
  by (induction cs arbitrary: k) (auto split: if_splits)

lemma position_None: "position cs x = None \<longleftrightarrow> x \<notin> set cs"
  by (induction cs) auto

lemma position_mem: "x \<in> set cs \<Longrightarrow> \<exists>k. position cs x = Some k \<and> k < length cs \<and> cs ! k = x"
  using position_None [of cs x] position_Some [of cs x] by (cases "position cs x") auto

lemma set_push_unique [simp]: "set (push_unique cs i) = insert i (set cs)"
  by (auto simp: push_unique_def)

lemma set_foldl_push_unique [simp]: "set (foldl push_unique cs xs) = set cs \<union> set xs"
  by (induction xs arbitrary: cs) auto

lemma set_foldl_eligible:
  "set (foldl (\<lambda>cols (i, ok). if ok then push_unique cols i else cols) cs xs) = set cs \<union> fst ` set (filter snd xs)"
  by (induction xs arbitrary: cs) auto

text \<open>The batch a plan cuts out of an input.\<close>

definition plan_batch :: "side_plan \<Rightarrow> batch \<Rightarrow> batch" where
  "plan_batch plan b = \<lparr>
     schema = map ((!) (schema b)) (device_cols plan) @ (if row_ids plan then [Field ROW_ID Int64 False] else []),
     columns = map ((!) (columns b)) (device_cols plan) @ (if row_ids plan then [row_id_array [0..<num_rows b]] else []),
     num_rows = num_rows b\<rparr>"

definition plan_in :: "side_plan \<Rightarrow> batch \<Rightarrow> bool" where
  "plan_in plan b \<longleftrightarrow> device_cols plan \<noteq> [] \<and> (\<forall>i \<in> set (device_cols plan). i < length (columns b)) \<and> num_rows b < 2 ^ 63"

lemma row_id_array_props [simp]:
  "arr_type (row_id_array js) = Int64" "length (cells (row_id_array js)) = length js"
  "None \<notin> set (cells (row_id_array js))" "array_ok (row_id_array js)"
  by (auto simp: row_id_array_def int64_array_def array_ok_def list_all_iff)

lemma take_row_ids: "\<forall>j \<in> set js. j < n \<Longrightarrow> take_array js (row_id_array [0..<n]) = row_id_array js"
  by (auto simp: take_array_def row_id_array_def int64_array_def)

lemma plan_batch_ok:
  assumes "batch_ok b" and "plan_in plan b"
  shows "batch_ok (plan_batch plan b)"
proof -
  have "list_all2 (column_fits (num_rows b)) (map ((!) (schema b)) (device_cols plan)) (map ((!) (columns b)) (device_cols plan))"
    using assms batch_ok_nth(1) [OF assms(1)] by (auto simp: plan_in_def list_all2_conv_all_nth)
  moreover have "list_all array_ok (map ((!) (columns b)) (device_cols plan))"
    using assms batch_ok_nth(2) [OF assms(1)] by (auto simp: plan_in_def list_all_iff)
  ultimately show ?thesis
    by (auto simp: batch_ok_def plan_batch_def columns_fit_def column_fits_def intro: list_all2_appendI)
qed

lemma plan_batch_nth:
  assumes "plan_position plan i = Some k"
  shows "k < length (device_cols plan)" "k < length (columns (plan_batch plan b))"
    "columns (plan_batch plan b) ! k = columns b ! i" "schema (plan_batch plan b) ! k = schema b ! i"
  using position_Some [OF assms [unfolded plan_position_def]] by (auto simp: plan_batch_def nth_append)

lemma plan_batch_row_ids:
  assumes "row_id_position plan = Some k"
  shows "k < length (columns (plan_batch plan b))" "columns (plan_batch plan b) ! k = row_id_array [0..<num_rows b]"
  using assms by (auto simp: row_id_position_def plan_batch_def nth_append split: if_splits)

lemma plan_batch_rows [simp]: "num_rows (plan_batch plan b) = num_rows b"
  by (simp add: plan_batch_def)

lemma plan_position_mem: "i \<in> set (device_cols plan) \<Longrightarrow> \<exists>k. plan_position plan i = Some k"
  using position_mem by (fastforce simp: plan_position_def)

context arrow_compute
begin

lemma sub_batch_plan:
  assumes "batch_ok b" and "plan_in plan b"
  shows "sub_batch A plan b = Inr (plan_batch plan b)"
proof -
  let ?cols = "map (\<lambda>i. (schema b ! i, columns b ! i)) (device_cols plan)"
  have "collect_res (\<lambda>i. and_then (field_at (schema b) i) (\<lambda>f. map_res (Pair f) (column_at b i))) (device_cols plan)
      = Inr ?cols"
    using assms batch_ok_length [OF assms(1)]
    by (intro collect_res_map) (auto simp: plan_in_def field_at_def column_at_def)
  moreover have "a_try_new A (schema (plan_batch plan b)) (columns (plan_batch plan b)) = Inr (plan_batch plan b)"
  proof -
    have ne: "columns (plan_batch plan b) \<noteq> []" using assms(2) by (simp add: plan_batch_def plan_in_def)
    have ok: "columns_fit (num_rows b) (schema (plan_batch plan b)) (columns (plan_batch plan b))"
      using plan_batch_ok [OF assms] by (simp add: batch_ok_def)
    have "new_rows (columns (plan_batch plan b)) = num_rows b"
      using ne batch_ok_rows [OF plan_batch_ok [OF assms], of 0] by (cases "columns (plan_batch plan b)") (auto simp: new_rows_def)
    then show ?thesis using try_new_ok [OF ne] ok by (simp add: plan_batch_def)
  qed
  ultimately show ?thesis using assms(2)
    by (auto simp: sub_batch_def plan_batch_def plan_in_def comp_def)
qed

end

lemma remap_predicate_plan:
  assumes "set (pred_columns p) \<subseteq> set (device_cols plan)"
  shows "\<exists>p'. remap_predicate p plan = Inr p' \<and> pred_row (plan_batch plan b) p' = pred_row b p \<and>
    (pred_typed (map arr_type (columns b)) p \<longrightarrow> pred_typed (map arr_type (columns (plan_batch plan b))) p') \<and>
    pred_ordered S (plan_batch plan b) p' = pred_ordered S b p"
  using assms
proof (induction p)
  case (Compare i op lit)
  then obtain k where "plan_position plan i = Some k" using plan_position_mem by auto
  then show ?case using plan_batch_nth(2-4) [of plan i k b] by (auto simp: fun_eq_iff)
qed (fastforce simp: fun_eq_iff)

section \<open>Outcomes\<close>

text \<open>An attempt on the device gives an acceptable batch, declines, or fails for good.\<close>

definition device_result :: "(batch \<Rightarrow> bool) \<Rightarrow> device_outcome result \<Rightarrow> bool" where
  "device_result P r = (case r of
      Inr (Ran out moved) \<Rightarrow> P out
    | Inr (Declined e) \<Rightarrow> is_unsupported e
    | Inl e \<Rightarrow> \<not> unsupported_fault e)"

lemma device_result_simps [simp]:
  "device_result P (Inr (Ran out moved)) = P out" "device_result P (Inr (Declined e)) = is_unsupported e"
  "device_result P (Inl f) = (\<not> unsupported_fault f)"
  by (simp_all add: device_result_def)

lemma try_device_result:
  assumes "\<And>s st st' b h. gpu s st = (Inr (b, h), st') \<Longrightarrow> P b"
  shows "device_result P (fst (try_device A gpu st))"
proof (cases "stream st")
  case (Pair r st')
  have "device_result P (fst (case gpu s st' of
      (Inr (b, h2d), st') \<Rightarrow> (Inr (Ran b (h2d, a_memory_size A b)), st')
    | (Inl (Err err), st') \<Rightarrow> if is_unsupported err then (Inr (Declined err), st') else (Inl (Err err), st')
    | (Inl (Panic m), st') \<Rightarrow> (Inl (Panic m), st')))" for s
    using assms [of s st'] by (auto split: prod.splits sum.splits fault.splits)
  then show ?thesis using Pair
    by (auto simp: try_device_def call_then_def stream_def Let_def split: sum.splits if_splits)
qed

lemma after_device_result:
  assumes "device_result P (fst (m st))" and "\<And>out moved. P out \<Longrightarrow> device_result Q (f out moved)"
  shows "device_result Q (fst (call_then m (\<lambda>outcome. case outcome of
      Declined why \<Rightarrow> pure_call (Inr (Declined why)) | Ran out moved \<Rightarrow> pure_call (f out moved)) st))"
  using assms by (cases "m st") (auto simp: call_then_def pure_call_def split: sum.splits device_outcome.splits)

lemma with_fallback_result:
  assumes "device_result P (fst (on_device st))"
  shows "fst (with_fallback B supported what on_device ref n elapsed st) = ref
    \<or> (\<exists>out. fst (with_fallback B supported what on_device ref n elapsed st) = Inr out \<and> P out)
    \<or> (\<exists>e. fst (with_fallback B supported what on_device ref n elapsed st) = Inl e \<and> \<not> unsupported_fault e
          \<and> is_gpu (be_kind B))"
proof (cases "no_device_path B supported what")
  case None
  then have "is_gpu (be_kind B)" by (auto simp: no_device_path_def split: if_splits)
  then show ?thesis using assms None
    by (cases "on_device st")
      (auto simp: with_fallback_def call_then_def Let_def split: sum.splits device_outcome.splits)
qed (auto simp: with_fallback_def call_then_def pure_call_def Let_def split: sum.splits)

context conforming_backend
begin

lemma round_trip_content:
  assumes "batch_ok sub" and "batch_carried S sub" and "round_trip A B s sub kern w = (Inr (host, h), w')"
  obtains d d' w1 w2 where "holds d sub" and "kern s d w1 = (Inr d', w2)" and "\<And>b'. holds d' b' \<Longrightarrow> host = b'"
proof -
  obtain d d' w1 w2 w3 w4 where d: "be_upload B s sub w = (Inr d, w1)" "kern s d w1 = (Inr d', w2)" "be_download B s d' w3 = (Inr host, w4)"
    using assms(3) by (auto simp: round_trip_def call_then_Inr)
  show ?thesis by (rule that [OF upload_holds [OF d(1) assms(1,2)] d(2)]) (rule download_holds [OF _ d(3)])
qed

lemma on_world_round_trip:
  assumes "batch_ok sub" and "batch_carried S sub"
    and "on_world (round_trip A B s sub kern) st = (Inr (host, h), st')"
  obtains d d' w1 w2 where "holds d sub" and "kern s d w1 = (Inr d', w2)" and "\<And>b'. holds d' b' \<Longrightarrow> host = b'"
proof -
  obtain w' where "round_trip A B s sub kern (op_world st) = (Inr (host, h), w')"
    using assms(3) by (auto simp: on_world_def split: prod.splits)
  then show ?thesis using that by (rule round_trip_content [OF assms(1,2)])
qed

lemma plan_batch_carried:
  assumes "batch_carried S b" and "plan_in plan b"
  shows "batch_carried S (plan_batch plan b)"
  using assms ids_carried by (auto simp: batch_carried_def list_all_iff plan_batch_def plan_in_def)

end

section \<open>Filter and projection\<close>

context arrow_compute
begin

lemma take_rows_ids:
  assumes "\<forall>r \<in> set rows. r < length (cells c) \<and> r < 2 ^ 63"
  shows "take_rows A c (row_id_array rows) = Inr (take_array rows c)"
  using take_ids_eq [OF assms] by (simp add: take_rows_def)

lemma reassemble_rows:
  assumes "batch_ok b" and "num_rows b < 2 ^ 63" and "\<forall>r \<in> set rows. r < num_rows b"
    and "\<forall>(i, ok) \<in> set xs. i < length (columns b)"
    and "(\<exists>i. (i, False) \<in> set xs) \<Longrightarrow> ids = Some (row_id_array rows)"
    and "\<forall>j < length (filter snd xs). nd + j < length (columns dev_out) \<and>
      columns dev_out ! (nd + j) = take_array rows (columns b ! (map fst (filter snd xs) ! j))"
  shows "reassemble A b dev_out ids nd xs = Inr (map (\<lambda>(i, _). (schema b ! i, take_array rows (columns b ! i))) xs)"
  using assms(4-6)
proof (induction xs arbitrary: nd)
  case (Cons x xs)
  obtain i ok where x: "x = (i, ok)" by (cases x)
  have i: "i < length (columns b)" "i < length (schema b)" using Cons(2) x batch_ok_length [OF assms(1)] by auto
  have len: "length (cells (columns b ! i)) = num_rows b" by (rule batch_ok_rows [OF assms(1) i(1)])
  have small: "\<forall>r \<in> set rows. r < length (cells (columns b ! i)) \<and> r < 2 ^ 63"
    using assms(2,3) len by auto
  show ?case
  proof (cases ok)
    case True
    have "column_at dev_out nd = Inr (take_array rows (columns b ! i))"
      using Cons(4) x True by (auto simp: column_at_def)
    moreover have "\<forall>j < length (filter snd xs). Suc nd + j < length (columns dev_out) \<and>
      columns dev_out ! (Suc nd + j) = take_array rows (columns b ! (map fst (filter snd xs) ! j))"
    proof (intro allI impI)
      fix j assume "j < length (filter snd xs)"
      then show "Suc nd + j < length (columns dev_out) \<and>
          columns dev_out ! (Suc nd + j) = take_array rows (columns b ! (map fst (filter snd xs) ! j))"
        using Cons(4) [rule_format, of "Suc j"] x True by simp
    qed
    ultimately show ?thesis using Cons(1) [of "Suc nd"] Cons(2,3) x True i by (auto simp: field_at_def)
  next
    case False
    then have "ids = Some (row_id_array rows)" using Cons(3) x by auto
    then show ?thesis using Cons(1) [of nd] Cons(2,3,4) x False i take_rows_ids [OF small]
      by (auto simp: field_at_def column_at_def)
  qed
qed simp

end

definition eligible_cols :: "batch \<Rightarrow> nat list \<Rightarrow> bool list" where
  "eligible_cols b js = map (\<lambda>i. device_eligible (field_type (schema b ! i))) js"

lemma eligible_zip: "zip js (eligible_cols b js) = map (\<lambda>i. (i, device_eligible (field_type (schema b ! i)))) js"
  by (simp add: eligible_cols_def zip_map2 zip_same_conv_map)

lemma set_filter_plan:
  "set (device_cols (filter_plan p js (eligible_cols b js))) =
     set (pred_columns p) \<union> {i \<in> set js. device_eligible (field_type (schema b ! i))}"
  by (force simp: filter_plan_def set_foldl_eligible eligible_zip)

lemma pred_columns_nonempty: "pred_columns p \<noteq> []"
  by (induction p) simp_all

lemma pred_typed_columns: "pred_typed ts p \<Longrightarrow> \<forall>i \<in> set (pred_columns p). i < length ts"
  by (induction p) auto

lemma filter_plan_in:
  assumes "pred_typed (map arr_type (columns b)) p" and "\<forall>j \<in> set js. j < length (columns b)" and "num_rows b < 2 ^ 63"
  shows "plan_in (filter_plan p js (eligible_cols b js)) b"
proof -
  have "set (device_cols (filter_plan p js (eligible_cols b js))) \<noteq> {}"
    using pred_columns_nonempty [of p] unfolding set_filter_plan by simp
  then have "device_cols (filter_plan p js (eligible_cols b js)) \<noteq> []" by force
  then show ?thesis using assms pred_typed_columns [OF assms(1)] by (auto simp: plan_in_def set_filter_plan)
qed

text \<open>The projection sent to the device: the positions of the eligible columns, then the row ids.\<close>

lemma device_projection_plan:
  assumes "plan = filter_plan p js (eligible_cols b js)"
  shows "\<exists>ks. device_projection plan (zip js (eligible_cols b js))
      = Inr (ks @ (if row_ids plan then [length (device_cols plan)] else []))
    \<and> list_all2 (\<lambda>i k. plan_position plan i = Some k) (map fst (filter snd (zip js (eligible_cols b js)))) ks"
proof -
  let ?sel = "map fst (filter snd (zip js (eligible_cols b js)))"
  have "\<forall>i \<in> set ?sel. \<exists>k. plan_position plan i = Some k"
    using plan_position_mem assms by (auto simp: set_filter_plan eligible_zip)
  then have pos: "\<forall>i \<in> set ?sel. plan_position plan i = Some (the (plan_position plan i))" by (metis option.sel)
  then have "collect_res (\<lambda>i. ok_or (plan_position plan i) (Err (Plan [Txt ''projected column '', Num i,
      Txt '' missing from device plan'']))) ?sel = Inr (map (\<lambda>i. the (plan_position plan i)) ?sel)"
    by (intro collect_res_map) (simp only: ok_or_Inr)
  moreover have "list_all2 (\<lambda>i k. plan_position plan i = Some k) ?sel (map (\<lambda>i. the (plan_position plan i)) ?sel)"
    using pos unfolding list_all2_map_same .
  ultimately show ?thesis
    by (auto simp: device_projection_def row_id_position_def simp del: map_map intro!: exI)
qed

lemma gather_column:
  "k < length js \<Longrightarrow> columns (gather_batch b rows js) ! k = take_array rows (columns b ! (js ! k))"
  by (simp add: gather_batch_def)

lemma kept_rows_less: "\<forall>r \<in> set (kept_rows b p). r < num_rows b"
  by (simp add: kept_rows_def)

lemma gather_batch_fits:
  assumes "batch_ok b" and "\<forall>r \<in> set rows. r < num_rows b" and "\<forall>j \<in> set js. j < length (columns b)"
  shows "columns_fit (length rows) (schema (gather_batch b rows js)) (columns (gather_batch b rows js))"
  using take_array_fits [OF batch_ok_nth(1) [OF assms(1)] assms(2)] assms(3)
  by (auto simp: columns_fit_def gather_batch_def list_all2_conv_all_nth)

context arrow_compute
begin

lemma gather_batch_new:
  assumes "batch_ok b" and "\<forall>r \<in> set rows. r < num_rows b" and "\<forall>j \<in> set js. j < length (columns b)" and "js \<noteq> []"
  shows "a_try_new A (map ((!) (schema b)) js) (map (\<lambda>j. take_array rows (columns b ! j)) js) = Inr (gather_batch b rows js)"
proof -
  have "new_rows (map (\<lambda>j. take_array rows (columns b ! j)) js) = length rows"
    using assms(4) by (cases js) (auto simp: new_rows_def take_array_def)
  then show ?thesis using gather_batch_fits [OF assms(1-3)] assms(4)
    try_new_ok [of "map (\<lambda>j. take_array rows (columns b ! j)) js" "map ((!) (schema b)) js"]
    by (simp add: gather_batch_def)
qed

end

text \<open>What the device returns is put back in projection order.\<close>

lemma filter_device_columns:
  assumes "list_all2 (\<lambda>i k. plan_position plan i = Some k) sel ks" and "j < length sel"
  shows "j < length (ks @ rest)" and "columns (gather_batch (plan_batch plan b) rows (ks @ rest)) ! j = take_array rows (columns b ! (sel ! j))"
proof -
  have len: "length ks = length sel" using assms(1) by (simp add: list_all2_lengthD)
  then show "j < length (ks @ rest)" using assms(2) by simp
  have "plan_position plan (sel ! j) = Some (ks ! j)" using assms by (simp add: list_all2_conv_all_nth)
  then show "columns (gather_batch (plan_batch plan b) rows (ks @ rest)) ! j = take_array rows (columns b ! (sel ! j))"
    using plan_batch_nth(3) [of plan "sel ! j" "ks ! j" b] len assms(2) by (simp add: gather_column nth_append)
qed

context conforming_backend
begin

lemma filter_on_device:
  assumes "batch_ok b" and "pred_typed (map arr_type (columns b)) p" and "js \<noteq> []"
    and "\<forall>j \<in> set js. j < length (columns b)" and "num_rows b < 2 ^ 63"
    and scope: "batch_carried S b" "pred_ordered S b p"
  shows "device_result (\<lambda>out. out = gather_batch b (kept_rows b p) js) (fst (op_filter_project_on_device A B b p js st))"
proof -
  define el where "el = eligible_cols b js"
  define plan where "plan = filter_plan p js el"
  define sub where "sub = plan_batch plan b"
  define rows where "rows = kept_rows b p"
  have eligible: "collect_res (\<lambda>i. map_res (\<lambda>f. device_eligible (field_type f)) (field_at (schema b) i)) js = Inr el"
    using assms(4) batch_ok_length [OF assms(1)] unfolding el_def eligible_cols_def
    by (intro collect_res_map) (simp add: field_at_def)
  have plan: "plan_in plan b" unfolding plan_def el_def by (rule filter_plan_in [OF assms(2,4,5)])
  have sub: "sub_batch A plan b = Inr sub" unfolding sub_def by (rule sub_batch_plan [OF assms(1) plan])
  have sub_ok: "batch_ok sub" unfolding sub_def by (rule plan_batch_ok [OF assms(1) plan])
  have "set (pred_columns p) \<subseteq> set (device_cols plan)" by (simp add: plan_def el_def set_filter_plan)
  then obtain p' where p': "remap_predicate p plan = Inr p'" "pred_row sub p' = pred_row b p"
      "pred_typed (map arr_type (columns sub)) p'" "pred_ordered S sub p'"
    using remap_predicate_plan [of p plan b S] assms(2) scope(2) by (auto simp: sub_def)
  have carried: "batch_carried S sub" unfolding sub_def by (rule plan_batch_carried [OF scope(1) plan])
  have rows: "kept_rows sub p' = rows" "\<forall>r \<in> set rows. r < num_rows b"
    using p'(2) kept_rows_less [of b p] by (simp_all add: kept_rows_def sub_def rows_def)
  obtain ks where ks: "device_projection plan (zip js el) = Inr (ks @ (if row_ids plan then [length (device_cols plan)] else []))"
      "list_all2 (\<lambda>i k. plan_position plan i = Some k) (map fst (filter snd (zip js el))) ks"
    using device_projection_plan [of plan p js b] by (auto simp: plan_def el_def)
  define dj where "dj = ks @ (if row_ids plan then [length (device_cols plan)] else [])"
  have dj_ne: "dj \<noteq> []"
  proof (cases "row_ids plan")
    case False
    then have "\<forall>x \<in> set (zip js el). snd x"
      by (auto simp: plan_def filter_plan_def list_ex_iff dest: set_zip_rightD)
    then have "filter snd (zip js el) = zip js el" by simp
    then have "length ks = length js" using ks(2) by (simp add: list_all2_lengthD el_def eligible_cols_def)
    then show ?thesis using assms(3) by (auto simp: dj_def)
  qed (simp add: dj_def)
  have dj_in: "\<forall>j \<in> set dj. j < length (columns sub)"
  proof -
    have "\<forall>k \<in> set ks. k < length (device_cols plan)"
      using ks(2) by (auto simp: list_all2_conv_all_nth in_set_conv_nth dest!: plan_batch_nth(1))
    then show ?thesis by (auto simp: dj_def sub_def plan_batch_def)
  qed
  have ref: "filter_project A sub p' dj = Inr (gather_batch sub rows dj)"
    using filter_project_rows [OF sub_ok p'(3) dj_ne dj_in] rows(1) by simp
  have run: "device_result (\<lambda>out. out = gather_batch sub rows dj) (fst (try_device A (\<lambda>s. on_world
      (round_trip A B s sub (\<lambda>s dev. be_filter_project B s dev p' dj))) st))" for st
  proof (rule try_device_result)
    fix s st st' out h
    assume "on_world (round_trip A B s sub (\<lambda>s dev. be_filter_project B s dev p' dj)) st = (Inr (out, h), st')"
    then obtain d d' w1 w2 where "holds d sub" "be_filter_project B s d p' dj w1 = (Inr d', w2)" "\<And>b'. holds d' b' \<Longrightarrow> out = b'"
      by (rule on_world_round_trip [OF sub_ok carried]) blast
    then show "out = gather_batch sub rows dj" using filter_matches [OF _ sub_ok carried p'(4) _ ref] by blast
  qed
  have last: "row_ids plan \<Longrightarrow> column_at (gather_batch sub rows dj) (length (columns (gather_batch sub rows dj)) - 1)
      = Inr (row_id_array rows)"
    using rows(2) plan_batch_row_ids(2) [of plan "length (device_cols plan)" b] take_row_ids [OF rows(2)]
    by (simp add: column_at_def gather_batch_def dj_def nth_append sub_def row_id_position_def)
  have whole: "reassemble A b (gather_batch sub rows dj) (if row_ids plan then Some (row_id_array rows) else None) 0 (zip js el)
      = Inr (map (\<lambda>(i, _). (schema b ! i, take_array rows (columns b ! i))) (zip js el))"
    using filter_device_columns(1) [OF ks(2), where rest = "if row_ids plan then [length (device_cols plan)] else []"]
      filter_device_columns(2) [OF ks(2), where rest = "if row_ids plan then [length (device_cols plan)] else []" and b = b and rows = rows]
      assms(4)
    by (intro reassemble_rows [OF assms(1,5) rows(2)])
      (auto simp: dj_def sub_def gather_batch_def plan_def filter_plan_def list_ex_iff dest: set_zip_leftD set_zip_rightD)
  have zip: "map fst (map (\<lambda>(i, _). (schema b ! i, take_array rows (columns b ! i))) (zip js el)) = map ((!) (schema b)) js"
    "map snd (map (\<lambda>(i, _). (schema b ! i, take_array rows (columns b ! i))) (zip js el)) = map (\<lambda>i. take_array rows (columns b ! i)) js"
    unfolding el_def eligible_zip by (simp_all add: comp_def)
  show ?thesis
    unfolding op_filter_project_on_device_def Let_def eligible call_then_pure plan_def [symmetric] sub p'(1) ks(1)
      dj_def [symmetric]
  proof (rule after_device_result [OF run])
    fix out moved
    assume out: "out = gather_batch sub rows dj"
    have "(if row_ids plan then map_res Some (column_at out (length (columns out) - 1)) else Inr None)
        = Inr (if row_ids plan then Some (row_id_array rows) else None)"
      using last out by simp
    then show "device_result (\<lambda>out. out = gather_batch b (kept_rows b p) js)
        (and_then (if row_ids plan then map_res Some (column_at out (length (columns out) - 1)) else Inr None) (\<lambda>ids.
         and_then (reassemble A b out ids 0 (zip js el)) (\<lambda>cols.
         map_res (\<lambda>out. Ran out moved) (lift_arrow (a_try_new A (map fst cols) (map snd cols))))))"
      using whole zip gather_batch_new [OF assms(1) rows(2) assms(4,3)] out
      by (simp add: rows_def del: map_map)
  qed
qed

end

section \<open>Aggregation and distance\<close>

lemma set_aggregate_plan: "set (device_cols (aggregate_plan spec)) = insert (group_by spec) (snd ` set (aggregates spec))"
  by (simp add: aggregate_plan_def)

lemma plan_position_the:
  "i \<in> set (device_cols plan) \<Longrightarrow> plan_position plan i = Some (unwrap_or_0 (plan_position plan i))"
  using plan_position_mem [of i plan] by (auto simp: unwrap_or_0_def)

lemma aggregate_result_plan:
  assumes "batch_ok b" and "key_column b (group_by spec) keys" and "aggregable b spec" and "num_rows b < 2 ^ 63"
  defines "plan \<equiv> aggregate_plan spec"
  shows "plan_in plan b" and "key_column (plan_batch plan b) (group_by (remap_spec plan spec)) keys"
    and "aggregable (plan_batch plan b) (remap_spec plan spec)"
    and "aggregate_result (plan_batch plan b) keys (remap_spec plan spec) = aggregate_result b keys spec"
proof -
  let ?at = "\<lambda>i. unwrap_or_0 (plan_position plan i)" and ?sub = "plan_batch plan b"
  have "device_cols plan \<noteq> []" using set_aggregate_plan [of spec] by (auto simp: plan_def)
  then show "plan_in plan b" using assms(2-4)
    by (auto simp: plan_in_def plan_def set_aggregate_plan key_column_def aggregable_def list_all_iff)
  have at: "?at i < length (columns ?sub)" "columns ?sub ! ?at i = columns b ! i" "schema ?sub ! ?at i = schema b ! i"
    if "i = group_by spec \<or> i \<in> snd ` set (aggregates spec)" for i
    using plan_batch_nth(2-4) [OF plan_position_the, of i plan b] that by (auto simp: plan_def set_aggregate_plan)
  show "key_column ?sub (group_by (remap_spec plan spec)) keys"
    using assms(2) at [of "group_by spec"] by (simp add: key_column_def remap_spec_def)
  have each: "?at i < length (columns ?sub) \<and> columns ?sub ! ?at i = columns b ! i \<and> schema ?sub ! ?at i = schema b ! i"
    if "(f, i) \<in> set (aggregates spec)" for f i
    using at [of i] that by force
  show "aggregable ?sub (remap_spec plan spec)"
    using assms(3) each by (fastforce simp: aggregable_def remap_spec_def list_all_iff)
  have "collect_res (\<lambda>(f, idx). map_res (\<lambda>(dt, arr). (Field (aggregate_name ?sub f idx) dt True, arr))
         (aggregate_column f (input_at ?sub idx) gs)) (map (\<lambda>(f, i). (f, ?at i)) xs)
      = collect_res (\<lambda>(f, idx). map_res (\<lambda>(dt, arr). (Field (aggregate_name b f idx) dt True, arr))
         (aggregate_column f (input_at b idx) gs)) xs" if "set xs \<subseteq> set (aggregates spec)" for xs gs
    using that by (induction xs) (auto simp: aggregate_name_def input_at_def dest!: each)
  then show "aggregate_result ?sub keys (remap_spec plan spec) = aggregate_result b keys spec"
    using at(3) [of "group_by spec"] by (simp add: aggregate_result_def remap_spec_def)
qed

lemma aggregate_folded_plan:
  "agg_folded S (plan_batch (aggregate_plan spec) b) (remap_spec (aggregate_plan spec) spec) = agg_folded S b spec"
proof -
  let ?plan = "aggregate_plan spec"
  have "columns (plan_batch ?plan b) ! unwrap_or_0 (plan_position ?plan i) = columns b ! i" if "(f, i) \<in> set (aggregates spec)" for f i
    using plan_batch_nth(3) [OF plan_position_the, of i ?plan b] that by (force simp: set_aggregate_plan)
  then show ?thesis by (force simp: agg_folded_def remap_spec_def list_all_iff)
qed

context conforming_backend
begin

lemma aggregate_on_device:
  assumes "batch_ok b" and "key_column b (group_by spec) keys" and "aggregable b spec" and "num_rows b < 2 ^ 63"
    and "aggregate A b spec = Inr r" and scope: "batch_carried S b" "agg_folded S b spec"
  shows "device_result (agrees r) (fst (op_aggregate_on_device A B b spec st))"
proof -
  let ?plan = "aggregate_plan spec"
  note plan = aggregate_result_plan [OF assms(1-4)]
  have ok: "batch_ok (plan_batch ?plan b)" by (rule plan_batch_ok [OF assms(1) plan(1)])
  have ref: "aggregate A (plan_batch ?plan b) (remap_spec ?plan spec) = Inr r"
    using aggregate_rows [OF assms(1-4)] plan(4) assms(5) aggregate_rows [OF ok plan(2,3)] assms(4) by simp
  have folded: "agg_folded S (plan_batch ?plan b) (remap_spec ?plan spec)" using aggregate_folded_plan scope(2) by simp
  have "device_result (agrees r) (fst (try_device A (\<lambda>s. on_world (round_trip A B s (plan_batch ?plan b) (\<lambda>s dev.
       be_aggregate B s dev (remap_spec ?plan spec)))) st))"
  proof (rule try_device_result)
    fix s st st' out h
    assume "on_world (round_trip A B s (plan_batch ?plan b) (\<lambda>s dev. be_aggregate B s dev (remap_spec ?plan spec))) st
      = (Inr (out, h), st')"
    then obtain d d' w1 w2 where "holds d (plan_batch ?plan b)" "be_aggregate B s d (remap_spec ?plan spec) w1 = (Inr d', w2)"
        "\<And>b'. holds d' b' \<Longrightarrow> out = b'"
      by (rule on_world_round_trip [OF ok plan_batch_carried [OF scope(1) plan(1)]]) blast
    then show "agrees r out"
      using aggregate_matches [OF _ ok plan_batch_carried [OF scope(1) plan(1)] folded _ ref] by blast
  qed
  then show ?thesis by (simp add: op_aggregate_on_device_def sub_batch_plan [OF assms(1) plan(1)])
qed

end

text \<open>The distance column of the reference, and the batch with a given column appended.\<close>

definition distance_column :: "batch \<Rightarrow> nat \<Rightarrow> f32 list \<Rightarrow> distance_metric \<Rightarrow> array" where
  "distance_column b i query metric =
     float32_array (map (map_option (\<lambda>c. distance metric (cell_vec c) query)) (cells (columns b ! i)))"

definition append_column :: "batch \<Rightarrow> string \<Rightarrow> array \<Rightarrow> batch" where
  "append_column b name c = \<lparr>schema = schema b @ [Field name Float32 True], columns = columns b @ [c], num_rows = num_rows b\<rparr>"

context arrow_compute
begin

lemma append_column_new:
  assumes "batch_ok b" and "columns b \<noteq> []" and "arr_type c = Float32" and "length (cells c) = num_rows b"
  shows "a_try_new A (schema b @ [Field name Float32 True]) (columns b @ [c]) = Inr (append_column b name c)"
proof -
  have "columns_fit (num_rows b) (schema b @ [Field name Float32 True]) (columns b @ [c])"
    using assms unfolding columns_fit_def batch_ok_def by (intro list_all2_appendI) (auto simp: column_fits_def)
  moreover have "new_rows (columns b @ [c]) = num_rows b"
    using assms(2) batch_ok_rows [OF assms(1), of 0] by (cases "columns b") (auto simp: new_rows_def)
  ultimately show ?thesis using try_new_ok [of "columns b @ [c]"] by (simp add: append_column_def)
qed

end

context conforming_backend
begin

lemma distance_on_device:
  assumes "batch_ok b" and "i < length (columns b)" and "vector_dimension (arr_type (columns b ! i)) = Some d"
    and "length query = d" and "num_rows b < 2 ^ 63" and scope: "batch_carried S b"
  shows "device_result (\<lambda>out. \<exists>c. near (distance_column b i query metric) c \<and> out = append_column b name c)
    (fst (op_vector_distance_on_device A B b i query metric name st))"
proof -
  let ?plan = "\<lparr>device_cols = [i], row_ids = False\<rparr>" and ?c = "distance_column b i query metric"
  have plan: "plan_in ?plan b" using assms(2,5) by (simp add: plan_in_def)
  have sub: "columns (plan_batch ?plan b) = [columns b ! i]" by (simp add: plan_batch_def)
  obtain r where r: "vector_distance A (plan_batch ?plan b) 0 query metric name = Inr r" "last (columns r) = ?c"
    using vector_distance_rows [OF plan_batch_ok [OF assms(1) plan], of 0 d query metric name] assms(3,4) sub
    by (simp add: distance_column_def)
  have run: "device_result (\<lambda>out. columns out \<noteq> [] \<and> near ?c (last (columns out)))
      (fst (try_device A (\<lambda>s. on_world (round_trip A B s (plan_batch ?plan b) (\<lambda>s dev.
       be_vector_distance B s dev 0 query metric name))) st))" for st
  proof (rule try_device_result)
    fix s st st' out h
    assume "on_world (round_trip A B s (plan_batch ?plan b) (\<lambda>s dev. be_vector_distance B s dev 0 query metric name)) st
      = (Inr (out, h), st')"
    then obtain d d' w1 w2 where d: "holds d (plan_batch ?plan b)"
        "be_vector_distance B s d 0 query metric name w1 = (Inr d', w2)" "\<And>b'. holds d' b' \<Longrightarrow> out = b'"
      by (rule on_world_round_trip [OF plan_batch_ok [OF assms(1) plan] plan_batch_carried [OF scope plan]]) blast
    show "columns out \<noteq> [] \<and> near ?c (last (columns out))"
      using distance_matches [OF d(1) plan_batch_ok [OF assms(1) plan] plan_batch_carried [OF scope plan] d(2) r(1)] d(3) r(2)
      by auto
  qed
  have shape: "arr_type ?c = Float32" "length (cells ?c) = num_rows b"
    using batch_ok_rows [OF assms(1,2)] by (simp_all add: distance_column_def)
  show ?thesis
    unfolding op_vector_distance_on_device_def sub_batch_plan [OF assms(1) plan] call_then_pure
  proof (rule after_device_result [OF run])
    fix out :: batch and moved
    assume out: "columns out \<noteq> [] \<and> near ?c (last (columns out))"
    then have "column_at out (length (columns out) - 1) = Inr (last (columns out))"
      by (simp add: column_at_def last_conv_nth)
    moreover have "a_try_new A (schema b @ [Field name Float32 True]) (columns b @ [last (columns out)])
        = Inr (append_column b name (last (columns out)))"
      using near_shape [of ?c "last (columns out)"] out shape assms(2) by (intro append_column_new [OF assms(1)]) auto
    ultimately show "device_result (\<lambda>out. \<exists>c. near ?c c \<and> out = append_column b name c)
        (and_then (column_at out (length (columns out) - 1)) (\<lambda>dist. map_res (\<lambda>out. Ran out moved)
           (lift_arrow (a_try_new A (schema b @ [Field name Float32 True]) (columns b @ [dist])))))"
      using out by auto
  qed
qed

end

section \<open>Hash join\<close>

lemma side_plan_loop_plan:
  assumes "\<forall>i \<in> set js. i < length fs"
  shows "\<exists>plan'. side_plan_loop fs js plan = Inr plan'
    \<and> set (device_cols plan') = set (device_cols plan) \<union> {i \<in> set js. device_eligible (field_type (fs ! i))}
    \<and> (row_ids plan' \<longleftrightarrow> row_ids plan \<or> (\<exists>i \<in> set js. \<not> device_eligible (field_type (fs ! i))))"
  using assms
proof (induction js arbitrary: plan)
  case (Cons i js)
  show ?case
    using Cons(2) Cons(1) [of "if device_eligible (field_type (fs ! i))
      then plan\<lparr>device_cols := push_unique (device_cols plan) i\<rparr> else plan\<lparr>row_ids := True\<rparr>"]
    by (auto simp: field_at_def)
qed simp

definition join_plan :: "field list \<Rightarrow> nat \<Rightarrow> nat list \<Rightarrow> side_plan" where
  "join_plan fs key js = (case side_plan_for fs key js of Inr plan \<Rightarrow> plan | Inl e \<Rightarrow> \<lparr>device_cols = [], row_ids = False\<rparr>)"

lemma join_plan_props:
  assumes "\<forall>i \<in> set js. i < length fs"
  shows "side_plan_for fs key js = Inr (join_plan fs key js)"
    and "set (device_cols (join_plan fs key js)) = insert key {i \<in> set js. device_eligible (field_type (fs ! i))}"
    and "i \<in> set js \<Longrightarrow> plan_position (join_plan fs key js) i = None \<Longrightarrow> row_ids (join_plan fs key js)"
proof -
  obtain plan where plan: "side_plan_for fs key js = Inr plan"
      "set (device_cols plan) = insert key {i \<in> set js. device_eligible (field_type (fs ! i))}"
      "row_ids plan \<longleftrightarrow> (\<exists>i \<in> set js. \<not> device_eligible (field_type (fs ! i)))"
    using side_plan_loop_plan [OF assms, of "\<lparr>device_cols = [key], row_ids = False\<rparr>"]
    by (auto simp: side_plan_for_def)
  then have p: "join_plan fs key js = plan" by (simp add: join_plan_def)
  show "side_plan_for fs key js = Inr (join_plan fs key js)"
    "set (device_cols (join_plan fs key js)) = insert key {i \<in> set js. device_eligible (field_type (fs ! i))}"
    using plan p by simp_all
  show "row_ids (join_plan fs key js)" if "i \<in> set js" "plan_position (join_plan fs key js) i = None"
    using that plan p by (auto simp: plan_position_def position_None)
qed

lemma join_plan_in:
  assumes "batch_ok b" and "\<forall>i \<in> set js. i < length (schema b)" and "key < length (columns b)" and "num_rows b < 2 ^ 63"
  shows "plan_in (join_plan (schema b) key js) b"
proof -
  have "device_cols (join_plan (schema b) key js) \<noteq> []" using join_plan_props(2) [OF assms(2), of key] by auto
  then show ?thesis using assms batch_ok_length [OF assms(1)] by (auto simp: plan_in_def join_plan_props(2))
qed

context arrow_compute
begin

lemma join_output_rows:
  assumes "batch_ok b" and "num_rows b < 2 ^ 63" and "\<forall>r \<in> set rows. r < num_rows b" and "i < length (columns b)"
    and "\<forall>k < length (columns (plan_batch plan b)). offset + k < length (columns dev_out) \<and>
      columns dev_out ! (offset + k) = take_array rows (columns (plan_batch plan b) ! k)"
    and "plan_position plan i = None \<Longrightarrow> row_ids plan"
    and "ids_column dev_out offset (row_id_position plan) = Inr ids"
  shows "join_output A b plan ids offset dev_out i = Inr (schema b ! i, take_array rows (columns b ! i))"
proof (cases "plan_position plan i")
  case (Some k)
  then show ?thesis using assms(4,5) plan_batch_nth(2,3) [OF Some, of b] batch_ok_length [OF assms(1)]
    by (simp add: join_output_def field_at_def column_at_def)
next
  case None
  then have "row_id_position plan = Some (length (device_cols plan))" using assms(6) by (simp add: row_id_position_def)
  then have "ids = Some (take_array rows (row_id_array [0..<num_rows b]))"
    using assms(5,7) plan_batch_row_ids [of plan "length (device_cols plan)" b] by (auto simp: ids_column_def column_at_def)
  then have "ids = Some (row_id_array rows)" by (simp add: take_row_ids [OF assms(3)])
  moreover have "\<forall>r \<in> set rows. r < length (cells (columns b ! i)) \<and> r < 2 ^ 63"
    using assms(2,3) batch_ok_rows [OF assms(1,4)] by auto
  ultimately show ?thesis using None assms(4) batch_ok_length [OF assms(1)] take_rows_ids
    by (simp add: join_output_def field_at_def column_at_def)
qed

end

lemma plan_batch_width: "length (columns (plan_batch plan b)) = length (device_cols plan) + (if row_ids plan then 1 else 0)"
  by (simp add: plan_batch_def)

lemma joined_all_columns:
  fixes l r ps
  defines "d \<equiv> joined_batch l r ps [0..<length (columns l) + length (columns r)]"
  shows "\<forall>k < length (columns l). 0 + k < length (columns d) \<and> columns d ! (0 + k) = take_array (map fst ps) (columns l ! k)"
    and "\<forall>k < length (columns r). length (columns l) + k < length (columns d) \<and>
      columns d ! (length (columns l) + k) = take_array (map snd ps) (columns r ! k)"
  by (auto simp: d_def joined_batch_def nth_append)

lemma ids_column_plan:
  assumes "\<forall>k < length (columns (plan_batch plan b)). offset + k < length (columns d) \<and> P k"
  shows "\<exists>ids. ids_column d offset (row_id_position plan) = Inr ids"
  using assms by (auto simp: ids_column_def row_id_position_def column_at_def plan_batch_width)

definition join_sides :: "nat \<Rightarrow> nat list \<Rightarrow> nat list \<times> nat list" where
  "join_sides width sel = (filter (\<lambda>i. i < width) sel, map (\<lambda>i. i - width) (filter (\<lambda>i. i \<ge> width) sel))"

context arrow_compute
begin

lemma joined_batch_new:
  assumes "batch_ok left" and "batch_ok right" and "\<forall>(i, j) \<in> set ps. i < num_rows left \<and> j < num_rows right"
    and "sel \<noteq> []" and "\<forall>j \<in> set sel. j < length (columns left) + length (columns right)"
  shows "a_try_new A (schema (joined_batch left right ps sel)) (columns (joined_batch left right ps sel))
    = Inr (joined_batch left right ps sel)"
proof -
  let ?J = "joined_batch left right ps sel"
  have fit: "columns_fit (length ps) (schema ?J) (columns ?J)" by (rule joined_batch_fits [OF assms(1-3,5)])
  have ne: "columns ?J \<noteq> []" using assms(4) by (simp add: joined_batch_def)
  have "new_rows (columns ?J) = length ps"
    using fit ne by (cases "columns ?J") (auto simp: new_rows_def columns_fit_def column_fits_def list_all2_Cons2)
  then show ?thesis using try_new_ok [OF ne] fit by (simp add: joined_batch_def)
qed

lemma join_reassemble_rows:
  assumes "batch_ok left" and "batch_ok right" and "num_rows left < 2 ^ 63" and "num_rows right < 2 ^ 63"
    and pairs: "\<forall>(i, j) \<in> set ps. i < num_rows left \<and> j < num_rows right"
    and "sel \<noteq> []" and sel: "\<forall>j \<in> set sel. j < length (columns left) + length (columns right)"
    and plans: "lp = join_plan (schema left) lkey (fst (join_sides (length (schema left)) sel))"
      "rp = join_plan (schema right) rkey (snd (join_sides (length (schema left)) sel))"
    and d: "d = joined_batch (plan_batch lp left) (plan_batch rp right) ps
      [0..<length (columns (plan_batch lp left)) + length (columns (plan_batch rp right))]"
  shows "join_reassemble A left right lp rp sel d = Inr (joined_batch left right ps sel)"
proof -
  let ?w = "length (schema left)" and ?lw = "length (columns (plan_batch lp left))"
  have len: "?w = length (columns left)" "length (schema right) = length (columns right)"
    using assms(1,2) by (simp_all add: batch_ok_length)
  note cols = joined_all_columns [where l = "plan_batch lp left" and r = "plan_batch rp right" and ps = ps, folded d]
  obtain lids where lids: "ids_column d 0 (row_id_position lp) = Inr lids"
    using ids_column_plan [OF cols(1)] by blast
  obtain rids where rids: "ids_column d ?lw (row_id_position rp) = Inr rids"
    using ids_column_plan [OF cols(2)] by blast
  have rows: "\<forall>r \<in> set (map fst ps). r < num_rows left" "\<forall>r \<in> set (map snd ps). r < num_rows right"
    using pairs by auto
  have lin: "\<forall>i \<in> set (fst (join_sides ?w sel)). i < length (schema left)"
    and rin: "\<forall>i \<in> set (snd (join_sides ?w sel)). i < length (schema right)"
    using sel len by (auto simp: join_sides_def)
  have "(if index < ?w then join_output A left lp lids 0 d index else join_output A right rp rids ?lw d (index - ?w))
      = Inr ((schema left @ schema right) ! index,
          (map (take_array (map fst ps)) (columns left) @ map (take_array (map snd ps)) (columns right)) ! index)"
    if index: "index \<in> set sel" for index
  proof (cases "index < ?w")
    case True
    then have "index \<in> set (fst (join_sides ?w sel))" using index by (simp add: join_sides_def)
    then have "plan_position lp index = None \<Longrightarrow> row_ids lp" using join_plan_props(3) [OF lin] plans(1) by simp
    then have "join_output A left lp lids 0 d index = Inr (schema left ! index, take_array (map fst ps) (columns left ! index))"
      using True len by (intro join_output_rows [OF assms(1,3) rows(1) _ cols(1) _ lids]) simp_all
    then show ?thesis using True len by (simp add: nth_append)
  next
    case False
    then have "index - ?w \<in> set (snd (join_sides ?w sel))" using index by (auto simp: join_sides_def)
    moreover from this have "index - ?w < length (columns right)" using rin len by simp
    moreover from calculation(1) have "plan_position rp (index - ?w) = None \<Longrightarrow> row_ids rp"
      using join_plan_props(3) [OF rin] plans(2) by simp
    ultimately have "join_output A right rp rids ?lw d (index - ?w)
        = Inr (schema right ! (index - ?w), take_array (map snd ps) (columns right ! (index - ?w)))"
      by (intro join_output_rows [OF assms(2,4) rows(2) _ cols(2) _ rids]) simp_all
    then show ?thesis using False len \<open>index - ?w < length (columns right)\<close> by (simp add: nth_append)
  qed
  then have "collect_res (\<lambda>index. if index < ?w then join_output A left lp lids 0 d index
        else join_output A right rp rids ?lw d (index - ?w)) sel
      = Inr (map (\<lambda>index. ((schema left @ schema right) ! index,
          (map (take_array (map fst ps)) (columns left) @ map (take_array (map snd ps)) (columns right)) ! index)) sel)"
    by (intro collect_res_map)
  then show ?thesis
    using joined_batch_new [OF assms(1,2) pairs assms(6) sel] lids rids
    unfolding join_reassemble_def Let_def plan_batch_width [of lp left, symmetric]
    by (simp add: joined_batch_def comp_def)
qed

end

text \<open>The build side kept on the device is the one the plan cuts out of the build batch.\<close>

definition build_matches :: "('d \<Rightarrow> batch \<Rightarrow> bool) \<Rightarrow> side_plan \<Rightarrow> batch \<Rightarrow> ('w, 't, 'd) gpu_operator \<Rightarrow> bool" where
  "build_matches holds plan right st \<longleftrightarrow>
     (\<forall>db. op_build st = Some db \<longrightarrow> dv_plan db = plan \<and> holds (dv_batch db) (plan_batch plan right))"

lemma try_device_invariant:
  assumes "I st" and "\<And>st n. I st \<Longrightarrow> I (st\<lparr>op_next := n\<rparr>)" and "\<And>s st. I st \<Longrightarrow> I (snd (gpu s st))"
    and "\<And>s st st' b h. I st \<Longrightarrow> gpu s st = (Inr (b, h), st') \<Longrightarrow> P b"
  shows "device_result P (fst (try_device A gpu st)) \<and> I (snd (try_device A gpu st))"
proof -
  let ?st = "st\<lparr>op_next := u64_add (op_next st) 1\<rparr>"
  have I: "I ?st" using assms(1,2) by blast
  have each: "device_result P (fst (case gpu s ?st of
      (Inr (b, h2d), st') \<Rightarrow> (Inr (Ran b (h2d, a_memory_size A b)), st')
    | (Inl (Err err), st') \<Rightarrow> if is_unsupported err then (Inr (Declined err), st') else (Inl (Err err), st')
    | (Inl (Panic m), st') \<Rightarrow> (Inl (Panic m), st'))) \<and>
    I (snd (case gpu s ?st of
      (Inr (b, h2d), st') \<Rightarrow> (Inr (Ran b (h2d, a_memory_size A b)), st')
    | (Inl (Err err), st') \<Rightarrow> if is_unsupported err then (Inr (Declined err), st') else (Inl (Err err), st')
    | (Inl (Panic m), st') \<Rightarrow> (Inl (Panic m), st')))" for s
    using assms(3) [OF I, of s] assms(4) [OF I, of s] by (auto split: prod.splits sum.splits fault.splits)
  show ?thesis
    using I each by (simp add: try_device_def call_then_def stream_def Let_def)
qed

context conforming_backend
begin

lemma device_build_matches:
  assumes "batch_ok right" and "plan_in plan right" and "jb_batch build = right" and "build_matches holds plan right st"
    and "batch_carried S right"
  shows "build_matches holds plan right (snd (device_build_for A B s build plan st))"
    and "device_build_for A B s build plan st = (Inr db, st') \<Longrightarrow> holds (dv_batch db) (plan_batch plan right)"
proof -
  have sub: "sub_batch A plan right = Inr (plan_batch plan right)" by (rule sub_batch_plan [OF assms(1,2)])
  have up: "build_matches holds plan right (snd (upload_build A B s build plan st)) \<and>
      (\<forall>db st'. upload_build A B s build plan st = (Inr db, st') \<longrightarrow> holds (dv_batch db) (plan_batch plan right))"
  proof (cases "be_upload B s (plan_batch plan right) (op_world st)")
    case u: (Pair r w1)
    show ?thesis
    proof (cases r)
      case (Inl e)
      then show ?thesis using u assms(4) by (simp add: upload_build_def assms(3) sub call_then_def on_world_def build_matches_def)
    next
      case (Inr d)
      then have d: "holds d (plan_batch plan right)"
        using u upload_holds [OF _ plan_batch_ok [OF assms(1,2)] plan_batch_carried [OF assms(5,2)]] by blast
      show ?thesis using u Inr d assms(4)
        by (cases "be_synchronize B s w1"; cases "fst (be_synchronize B s w1)"; cases "op_build st")
          (simp_all add: upload_build_def assms(3) sub call_then_def on_world_def build_matches_def Let_def)
    qed
  qed
  show "build_matches holds plan right (snd (device_build_for A B s build plan st))"
    using up assms(4) by (auto simp: device_build_for_def split: option.splits)
  show "device_build_for A B s build plan st = (Inr db, st') \<Longrightarrow> holds (dv_batch db) (plan_batch plan right)"
    using up assms(4) by (auto simp: device_build_for_def build_matches_def split: option.splits if_splits)
qed

end

lemma build_matches_frame [simp]:
  "build_matches holds plan right (st\<lparr>op_next := n\<rparr>) = build_matches holds plan right st"
  "build_matches holds plan right (st\<lparr>op_world := w\<rparr>) = build_matches holds plan right st"
  "build_matches holds plan right (st\<lparr>op_stats := s\<rparr>) = build_matches holds plan right st"
  "build_matches holds plan right (fell_back e st) = build_matches holds plan right st"
  "build_matches holds plan right (record_run k out t moved st) = build_matches holds plan right st"
  by (simp_all add: build_matches_def fell_back_def record_run_def)

lemma after_device_state: "snd (call_then m (\<lambda>outcome. case outcome of
    Declined why \<Rightarrow> pure_call (Inr (Declined why)) | Ran out moved \<Rightarrow> pure_call (f out moved)) st) = snd (m st)"
  by (cases "m st") (auto simp: call_then_def pure_call_def split: sum.splits device_outcome.splits)

lemma with_fallback_invariant:
  assumes "I st" and "I (snd (on_device st))" and "\<And>e st. I st \<Longrightarrow> I (fell_back e st)"
    and "\<And>k out t moved st. I st \<Longrightarrow> I (record_run k out t moved st)"
  shows "I (snd (with_fallback B supported what on_device ref n elapsed st))"
proof (cases "no_device_path B supported what")
  case None
  then show ?thesis using assms
    by (cases "on_device st")
      (auto simp: with_fallback_def call_then_def Let_def split: sum.splits device_outcome.splits)
qed (auto simp: with_fallback_def call_then_def pure_call_def Let_def assms split: sum.splits)

lemma unwrap_key: "key \<in> set (device_cols plan) \<Longrightarrow> plan_position plan key = Some (unwrap_or_0 (plan_position plan key))"
  by (rule plan_position_the)

lemma key_column_plan:
  assumes "key_column b key keys" and "plan_position plan key = Some k"
  shows "key_column (plan_batch plan b) k keys"
  using assms plan_batch_nth(2,3) [OF assms(2), of b] by (simp add: key_column_def)

context conforming_backend
begin

lemma join_on_device:
  assumes left: "batch_ok left" "key_column left lkey lk" "num_rows left \<le> Suc u32_max"
    and right: "batch_ok right" "key_column right rkey rk" "num_rows right \<le> u32_max"
    and build: "jb_batch build = right" "jb_key build = rkey"
    and sel: "sel = join_selection left right projection" "sel \<noteq> []"
      "\<forall>j \<in> set sel. j < length (columns left) + length (columns right)"
    and rp: "rp = join_plan (schema right) rkey (snd (join_sides (length (schema left)) sel))"
    and st: "build_matches holds rp right st"
    and scope: "batch_carried S left" "batch_carried S right" "length (nested_loop lk rk) \<le> max_rows S"
  shows "device_result (\<lambda>out. \<exists>ps. mset ps = mset (nested_loop lk rk) \<and> out = joined_batch left right ps sel)
      (fst (op_hash_join_on_device A B left build lkey projection st))"
    and "build_matches holds rp right (snd (op_hash_join_on_device A B left build lkey projection st))"
proof -
  define lp where "lp = join_plan (schema left) lkey (fst (join_sides (length (schema left)) sel))"
  have small: "num_rows left < 2 ^ 63" "num_rows right < 2 ^ 63" using left(3) right(3) by (simp_all add: u32_max_def)
  have len: "length (schema left) = length (columns left)" "length (schema right) = length (columns right)"
    using left(1) right(1) by (simp_all add: batch_ok_length)
  have lin: "\<forall>i \<in> set (fst (join_sides (length (schema left)) sel)). i < length (schema left)"
    and rin: "\<forall>i \<in> set (snd (join_sides (length (schema left)) sel)). i < length (schema right)"
    using sel(3) len by (auto simp: join_sides_def)
  have plans: "plan_in lp left" "plan_in rp right"
    using join_plan_in [OF left(1) lin _ small(1)] join_plan_in [OF right(1) rin _ small(2)] left(2) right(2)
    by (simp_all add: lp_def rp key_column_def)
  have subs: "sub_batch A lp left = Inr (plan_batch lp left)" by (rule sub_batch_plan [OF left(1) plans(1)])
  let ?kl = "unwrap_or_0 (plan_position lp lkey)" and ?kr = "unwrap_or_0 (plan_position rp rkey)"
  let ?L = "plan_batch lp left" and ?R = "plan_batch rp right"
  have keys: "key_column ?L ?kl lk" "key_column ?R ?kr rk"
    using key_column_plan [OF left(2) unwrap_key] key_column_plan [OF right(2) unwrap_key]
      join_plan_props(2) [OF lin] join_plan_props(2) [OF rin] by (simp_all add: lp_def rp)
  have ok: "batch_ok ?L" "batch_ok ?R"
    using plan_batch_ok [OF left(1) plans(1)] plan_batch_ok [OF right(1) plans(2)] .
  have pairs: "\<forall>(i, j) \<in> set ps. i < num_rows left \<and> j < num_rows right" if "mset ps = mset (nested_loop lk rk)" for ps
  proof -
    have "set ps = set (nested_loop lk rk)" using that by (metis set_mset_mset)
    then show ?thesis using nested_loop_less key_column_length [OF left(1,2)] key_column_length [OF right(1,2)] by fastforce
  qed
  let ?gpu = "\<lambda>s. call_then (device_build_for A B s build rp) (\<lambda>dev_build. on_world (round_trip A B s ?L (\<lambda>s dev_left.
          be_hash_join B s dev_left (dv_batch dev_build) ?kl ?kr)))"
  let ?P = "\<lambda>d. \<exists>ps. mset ps = mset (nested_loop lk rk) \<and> d = joined_batch ?L ?R ps [0..<length (columns ?L) + length (columns ?R)]"
  have run: "device_result ?P (fst (try_device A ?gpu st)) \<and> build_matches holds rp right (snd (try_device A ?gpu st))"
  proof (rule try_device_invariant [where I = "build_matches holds rp right", OF st])
    fix s and st :: "('w, 't, 'd) gpu_operator"
    assume I: "build_matches holds rp right st"
    show "build_matches holds rp right (snd (?gpu s st))"
      using device_build_matches(1) [OF right(1) plans(2) build(1) I scope(2), of s]
      by (auto simp: call_then_def on_world_def split: prod.splits sum.splits)
    fix st' out h
    assume "?gpu s st = (Inr (out, h), st')"
    then obtain db st1 where db: "device_build_for A B s build rp st = (Inr db, st1)"
        and run: "on_world (round_trip A B s ?L (\<lambda>s dev_left. be_hash_join B s dev_left (dv_batch db) ?kl ?kr)) st1 = (Inr (out, h), st')"
      by (auto simp: call_then_Inr)
    obtain d d' w1 w2 where d: "holds d ?L" "be_hash_join B s d (dv_batch db) ?kl ?kr w1 = (Inr d', w2)"
        "\<And>b'. holds d' b' \<Longrightarrow> out = b'"
      by (rule on_world_round_trip [OF ok(1) plan_batch_carried [OF scope(1) plans(1)] run]) blast
    have "holds (dv_batch db) ?R" by (rule device_build_matches(2) [OF right(1) plans(2) build(1) I scope(2) db])
    then show "?P out"
      using join_matches [OF d(1) _ ok plan_batch_carried [OF scope(1) plans(1)] plan_batch_carried [OF scope(2) plans(2)] keys _ _ scope(3) d(2)]
        left(3) right(3) d(3) by auto
  qed simp
  have selected: "find (\<lambda>index. index \<ge> length (schema left) + length (schema right)) sel = None"
    using sel(3) len by (auto simp: find_None_iff)
  have sel': "(case projection of None \<Rightarrow> [0..<length (schema left) + length (schema right)] | Some js \<Rightarrow> js) = sel"
    using sel(1) by (simp add: join_selection_def split: option.splits)
  have unfolded: "op_hash_join_on_device A B left build lkey projection = call_then (try_device A ?gpu) (\<lambda>outcome. case outcome of
       Declined why \<Rightarrow> pure_call (Inr (Declined why))
     | Ran dev_out moved \<Rightarrow> pure_call (map_res (\<lambda>out. Ran out moved) (join_reassemble A left right lp rp sel dev_out)))"
  proof -
    have "side_plan_for (schema left) lkey (filter (\<lambda>i. i < length (schema left)) sel) = Inr lp"
      "side_plan_for (schema right) rkey (map (\<lambda>i. i - length (schema left)) (filter (\<lambda>i. i \<ge> length (schema left)) sel)) = Inr rp"
      using join_plan_props(1) [OF lin, of lkey] join_plan_props(1) [OF rin, of rkey] by (simp_all add: join_sides_def lp_def rp)
    then show ?thesis using subs selected by (simp add: op_hash_join_on_device_def Let_def build sel')
  qed
  show "build_matches holds rp right (snd (op_hash_join_on_device A B left build lkey projection st))"
    unfolding unfolded after_device_state using run by blast
  show "device_result (\<lambda>out. \<exists>ps. mset ps = mset (nested_loop lk rk) \<and> out = joined_batch left right ps sel)
      (fst (op_hash_join_on_device A B left build lkey projection st))"
    unfolding unfolded
  proof (rule after_device_result [where P = ?P and m = "try_device A ?gpu" and st = st, OF conjunct1 [OF run]])
    fix out moved
    assume "?P out"
    then obtain ps where ps: "mset ps = mset (nested_loop lk rk)"
        "out = joined_batch ?L ?R ps [0..<length (columns ?L) + length (columns ?R)]" by blast
    have "join_reassemble A left right lp rp sel out = Inr (joined_batch left right ps sel)"
      by (rule join_reassemble_rows [OF left(1) right(1) small pairs [OF ps(1)] sel(2,3) lp_def rp ps(2)])
    then show "device_result (\<lambda>out. \<exists>ps. mset ps = mset (nested_loop lk rk) \<and> out = joined_batch left right ps sel)
        (map_res (\<lambda>out. Ran out moved) (join_reassemble A left right lp rp sel out))"
      using ps(1) by auto
  qed
qed

end

section \<open>Sequences of probes\<close>

fun probe_all :: "arrow_ops \<Rightarrow> ('w, 't, 'd) gpu_backend \<Rightarrow> join_build \<Rightarrow> nat \<Rightarrow> nat list option \<Rightarrow> (nat \<times> batch) list
    \<Rightarrow> ('w, 't, 'd) gpu_operator \<Rightarrow> batch result list \<times> ('w, 't, 'd) gpu_operator" where
  "probe_all A B build lkey projection [] st = ([], st)"
| "probe_all A B build lkey projection ((elapsed, left) # probes) st =
    (let (r, st) = op_hash_join A B elapsed left build lkey projection st;
         (rs, st) = probe_all A B build lkey projection probes st in (r # rs, st))"

text \<open>The answer to a probe: the joined rows in some order, or a failure of the device.\<close>

definition probe_answer :: "('w, 't, 'd) gpu_backend \<Rightarrow> batch \<Rightarrow> i64 option list \<Rightarrow> nat \<Rightarrow> nat list option \<Rightarrow> batch
    \<Rightarrow> batch result \<Rightarrow> bool" where
  "probe_answer B right rk lkey projection left r \<longleftrightarrow>
     (\<exists>lk ps. key_column left lkey lk \<and> mset ps = mset (nested_loop lk rk)
        \<and> r = Inr (joined_batch left right ps (join_selection left right projection)))
     \<or> (\<exists>e. r = Inl e \<and> \<not> unsupported_fault e \<and> is_gpu (be_kind B))"

definition probe_ok :: "field list \<Rightarrow> nat \<Rightarrow> batch \<Rightarrow> bool" where
  "probe_ok fs lkey left \<longleftrightarrow> batch_ok left \<and> schema left = fs \<and> num_rows left \<le> Suc u32_max \<and> (\<exists>lk. key_column left lkey lk)"

text \<open>A probe within the scope of a backend: the batch is carried and the joined rows are few enough.\<close>

definition probe_in_scope :: "backend_scope \<Rightarrow> i64 option list \<Rightarrow> nat \<Rightarrow> batch \<Rightarrow> bool" where
  "probe_in_scope S rk lkey left \<longleftrightarrow> batch_carried S left \<and>
     (\<forall>lk. key_column left lkey lk \<longrightarrow> length (nested_loop lk rk) \<le> max_rows S)"

lemma probe_all_append:
  "probe_all A B build lkey projection (xs @ ys) st =
    (let (rs, st) = probe_all A B build lkey projection xs st; (rs', st) = probe_all A B build lkey projection ys st
     in (rs @ rs', st))"
  by (induction xs arbitrary: st) (auto simp: Let_def split: prod.splits)

context conforming_backend
begin

lemma op_hash_join_answer:
  assumes left: "probe_ok fs lkey left" "probe_in_scope S rk lkey left" and carried: "batch_carried S right"
    and right: "batch_ok right" "key_column right rkey rk" "num_rows right \<le> u32_max"
    and build: "jb_batch build = right" "jb_key build = rkey" "\<forall>k. table_matches (jb_table build) k = Inr (rows_with rk k)"
    and sel: "join_selection left right projection \<noteq> []"
      "\<forall>j \<in> set (join_selection left right projection). j < length fs + length (schema right)"
    and st: "build_matches holds (join_plan (schema right) rkey
        (snd (join_sides (length fs) (join_selection left right projection)))) right st"
  shows "probe_answer B right rk lkey projection left (fst (op_hash_join A B t left build lkey projection st))"
    and "build_matches holds (join_plan (schema right) rkey
        (snd (join_sides (length fs) (join_selection left right projection)))) right
        (snd (op_hash_join A B t left build lkey projection st))"
proof -
  let ?sel = "join_selection left right projection"
  obtain lk where l: "batch_ok left" "key_column left lkey lk" "num_rows left \<le> Suc u32_max" and fs: "schema left = fs"
    using left(1) by (auto simp: probe_ok_def)
  have scope: "batch_carried S left" "length (nested_loop lk rk) \<le> max_rows S"
    using left(2) l(2) by (auto simp: probe_in_scope_def)
  have len: "length fs = length (columns left)" "length (schema right) = length (columns right)"
    using l(1) right(1) fs by (auto simp: batch_ok_length)
  have sel': "\<forall>j \<in> set ?sel. j < length (columns left) + length (columns right)" using sel(2) len by simp
  note dev = join_on_device [OF l right build(1,2) refl sel(1) sel' refl, unfolded fs, OF st scope(1) carried scope(2)]
  have ref: "hash_join_probe A left lkey (jb_batch build) (jb_table build) projection
      = Inr (joined_batch left right (nested_loop lk rk) ?sel)"
    unfolding build(1) by (rule hash_join_probe_rows [OF l(1) right(1) l(2) right(2) build(3) l(3) sel(1) sel'])
  show "probe_answer B right rk lkey projection left (fst (op_hash_join A B t left build lkey projection st))"
    using with_fallback_result [where on_device = "op_hash_join_on_device A B left build lkey projection" and st = st,
        OF dev(1), of B "be_supports_hash_join B" "''hash joins''"
        "hash_join_probe A left lkey (jb_batch build) (jb_table build) projection" "num_rows left" t] l(2) ref
    unfolding probe_answer_def op_hash_join_def by auto
  show "build_matches holds (join_plan (schema right) rkey (snd (join_sides (length fs) ?sel))) right
      (snd (op_hash_join A B t left build lkey projection st))"
    unfolding op_hash_join_def by (rule with_fallback_invariant) (simp_all add: st dev(2))
qed

lemma probe_all_answers:
  assumes "\<forall>(t, left) \<in> set probes. probe_ok fs lkey left \<and> probe_in_scope S rk lkey left" and carried: "batch_carried S right"
    and right: "batch_ok right" "key_column right rkey rk" "num_rows right \<le> u32_max"
    and build: "jb_batch build = right" "jb_key build = rkey" "\<forall>k. table_matches (jb_table build) k = Inr (rows_with rk k)"
    and sel: "sel = (case projection of Some js \<Rightarrow> js | None \<Rightarrow> [0..<length fs + length (schema right)])" "sel \<noteq> []"
      "\<forall>j \<in> set sel. j < length fs + length (schema right)"
    and st: "build_matches holds (join_plan (schema right) rkey (snd (join_sides (length fs) sel))) right st"
  shows "list_all2 (\<lambda>(t, left). probe_answer B right rk lkey projection left) probes
    (fst (probe_all A B build lkey projection probes st))"
  using assms(1) st
proof (induction probes arbitrary: st)
  case (Cons x probes)
  obtain t left where x: "x = (t, left)" by (cases x)
  have left: "probe_ok fs lkey left" "probe_in_scope S rk lkey left" using Cons(2) x by simp_all
  then have s: "join_selection left right projection = sel"
    using sel(1) by (auto simp: join_selection_def probe_ok_def split: option.splits)
  note step = op_hash_join_answer [where projection = projection, OF left carried right build, unfolded s, OF sel(2,3) Cons(3)]
  obtain r st1 where r: "op_hash_join A B t left build lkey projection st = (r, st1)" by fastforce
  have "\<forall>(t, left) \<in> set probes. probe_ok fs lkey left \<and> probe_in_scope S rk lkey left" using Cons(2) by simp
  then have "list_all2 (\<lambda>(t, left). probe_answer B right rk lkey projection left) probes
      (fst (probe_all A B build lkey projection probes st1))"
    by (rule Cons(1)) (use step(2) [of t] r in simp)
  then show ?case using step(1) [of t] r x by (simp add: case_prod_unfold Let_def)
qed simp

end

section \<open>Properties\<close>

lemma kind_frame:
  "be_upload (B\<lparr>be_kind := k\<rparr>) = be_upload B" "be_download (B\<lparr>be_kind := k\<rparr>) = be_download B"
  "be_filter_project (B\<lparr>be_kind := k\<rparr>) = be_filter_project B" "be_hash_join (B\<lparr>be_kind := k\<rparr>) = be_hash_join B"
  "be_aggregate (B\<lparr>be_kind := k\<rparr>) = be_aggregate B" "be_vector_distance (B\<lparr>be_kind := k\<rparr>) = be_vector_distance B"
  by simp_all

lemma conforming_kind:
  "conforming_backend A B holds agrees near S \<Longrightarrow> conforming_backend A (B\<lparr>be_kind := k\<rparr>) holds agrees near S"
  unfolding conforming_backend_def conforming_backend_axioms_def kind_frame .

text \<open>A device that computes the reference, and an operator on it.\<close>

definition sample_gpu :: "(unit, device_stream, unit device_batch) gpu_backend" where
  "sample_gpu = (cpu_backend rev arrow_ref)\<lparr>be_kind := Cuda\<rparr>"

definition sample_operator :: "(unit, device_stream, unit device_batch) gpu_operator" where
  "sample_operator = \<lparr>op_streams = [cpu_create_stream, cpu_create_stream], op_next = 0, op_stats = None, op_build = None,
     op_warned = False, op_log = [], op_world = ()\<rparr>"

lemma sample_gpu_conforms: "conforming_backend arrow_ref sample_gpu host_holds (=) (=) (unlimited u32_max)"
  unfolding sample_gpu_def by (rule conforming_kind [OF cpu_ref.conforming_backend_axioms])

text \<open>
  C22: Running a filter on a device changes nothing: on a backend whose kernels match the reference,
  although only the predicate and the eligible projected columns travel, the predicate is renumbered
  and the other columns are gathered by row id, the operator returns exactly what the CPU kernel
  returns on the whole batch, or reports a failure of the device, never an \<open>Unsupported\<close> answer of it.
\<close>

theorem operator_filter_matches:
  assumes "conforming_backend A B holds agrees near S" and "batch_ok b" and "pred_typed (map arr_type (columns b)) p"
    and "js \<noteq> []" and "\<forall>j \<in> set js. j < length (columns b)" and "num_rows b < 2 ^ 63"
    and "batch_carried S b" and "pred_ordered S b p"
  shows "fst (op_filter_project A B t b p js st) = filter_project A b p js
    \<or> (\<exists>e. fst (op_filter_project A B t b p js st) = Inl e \<and> \<not> unsupported_fault e \<and> is_gpu (be_kind B))"
proof -
  have "arrow_compute A" using assms(1) by (rule conforming_backend.axioms(1))
  then have "filter_project A b p js = Inr (gather_batch b (kept_rows b p) js)"
    using arrow_compute.filter_project_rows assms(2-5) by blast
  then show ?thesis
    using with_fallback_result [where on_device = "op_filter_project_on_device A B b p js" and st = st,
        OF conforming_backend.filter_on_device [OF assms], of B "be_supports_predicate B p" "''this predicate''"
        "filter_project A b p js" "num_rows b" t]
    unfolding op_filter_project_def by auto
qed

definition sample_table :: batch where
  "sample_table = \<lparr>schema = [Field ''k'' Int64 True, Field ''s'' Utf8 True],
     columns = [int64_array [Some 1, None, Some 5], \<lparr>arr_type = Utf8, cells = [Some (CText ''a''), None, Some (CText ''c'')]\<rparr>],
     num_rows = 3\<rparr>"

lemma sample_table_ok: "batch_ok sample_table"
  by (simp add: sample_table_def batch_ok_def columns_fit_def column_fits_def int64_array_def array_ok_def)

theorem operator_filter_matches_witness:
  "fst (op_filter_project arrow_ref sample_gpu 9 sample_table (Compare 0 Gt (LInt64 2)) [1, 0] sample_operator)
     = filter_project arrow_ref sample_table (Compare 0 Gt (LInt64 2)) [1, 0]
   \<or> (\<exists>e. fst (op_filter_project arrow_ref sample_gpu 9 sample_table (Compare 0 Gt (LInt64 2)) [1, 0] sample_operator) = Inl e
        \<and> \<not> unsupported_fault e \<and> is_gpu (be_kind sample_gpu))"
  using operator_filter_matches [OF sample_gpu_conforms sample_table_ok, of "Compare 0 Gt (LInt64 2)" "[1, 0]" 9 sample_operator]
  by (simp add: sample_table_def u32_max_def)

text \<open>
  C23: Every probe of a join is answered correctly: one build side is prepared, cut to the columns the
  probes need and uploaded once, and any number of probe batches of the same schema run against it,
  each on the device or on the CPU; every answer is the nested-loop join of its batch with the build
  side, projected, up to the order of its rows, or a failure of the device.
\<close>

theorem operator_join_matches:
  assumes "conforming_backend A B holds agrees near S" and "permutes_list ord"
    and "batch_ok right" and "key_column right rkey rk" and "num_rows right \<le> u32_max"
    and "\<forall>(t, left) \<in> set probes. probe_ok fs lkey left \<and> probe_in_scope S rk lkey left" and "op_build st = None"
    and "sel = (case projection of Some js \<Rightarrow> js | None \<Rightarrow> [0..<length fs + length (schema right)])" and "sel \<noteq> []"
    and "\<forall>j \<in> set sel. j < length fs + length (schema right)" and "batch_carried S right"
  shows "\<exists>build. join_build_new ord right rkey = Inr build \<and>
    list_all2 (\<lambda>(t, left). probe_answer B right rk lkey projection left) probes
      (fst (probe_all A B build lkey projection probes st))"
proof -
  obtain t where t: "table_of_keys ord rk = Inr t" "\<forall>k. table_matches t k = Inr (rows_with rk k)"
    using table_of_keys_spec [OF assms(2), of rk] key_column_length [OF assms(3,4)] assms(5) by auto
  let ?build = "\<lparr>jb_batch = right, jb_key = rkey, jb_table = t\<rparr>"
  have "join_build_new ord right rkey = Inr ?build"
    using t(1) int64_column_key [OF assms(4)] by (simp add: join_build_new_def table_build_def)
  moreover have "list_all2 (\<lambda>(t, left). probe_answer B right rk lkey projection left) probes
      (fst (probe_all A B ?build lkey projection probes st))"
    using t(2) assms(7)
    by (intro conforming_backend.probe_all_answers [OF assms(1,6,11,3,4,5) _ _ _ assms(8,9,10)]) (auto simp: build_matches_def)
  ultimately show ?thesis by blast
qed

definition sample_probes :: "(nat \<times> batch) list" where
  "sample_probes = [(1, sample_table), (2, sample_table)]"

theorem operator_join_matches_witness:
  "\<exists>build. join_build_new rev sample_table 0 = Inr build \<and>
    list_all2 (\<lambda>(t, left). probe_answer sample_gpu sample_table [Some 1, None, Some 5] 0 (Some [0, 3]) left) sample_probes
      (fst (probe_all arrow_ref sample_gpu build 0 (Some [0, 3]) sample_probes sample_operator))"
proof -
  have key: "key_column sample_table 0 [Some 1, None, Some 5]" by (simp add: key_column_def sample_table_def)
  have rows: "num_rows sample_table \<le> u32_max" "length (schema sample_table) = 2"
    by (simp_all add: sample_table_def u32_max_def)
  moreover have "nested_loop [Some 1, None, Some (5 :: i64)] [Some 1, None, Some 5] = [(0, 0), (2, 2)]"
    by (simp add: nested_loop_def upt_rec)
  ultimately have probes: "\<forall>(t, left) \<in> set sample_probes. probe_ok (schema sample_table) 0 left \<and>
      probe_in_scope (unlimited u32_max) [Some 1, None, Some 5] 0 left"
    using sample_table_ok key by (auto simp: probe_ok_def probe_in_scope_def sample_probes_def key_column_def u32_max_def)
  show ?thesis
    by (rule operator_join_matches [OF sample_gpu_conforms _ sample_table_ok key rows(1) probes, where sel = "[0, 3]"])
      (simp_all add: permutes_list_def sample_operator_def rows)
qed

text \<open>
  C24: Aggregation on a device keeps the meaning of the query: where the CPU kernel computes a result
  for the whole batch, the operator, which sends the key and the inputs only and renumbers the
  specification, returns a result that agrees with it as closely as the backend promises for its
  kernel, or reports a failure of the device.
\<close>

theorem operator_aggregate_matches:
  assumes "conforming_backend A B holds agrees near S" and "batch_ok b" and "key_column b (group_by spec) keys"
    and "aggregable b spec" and "num_rows b < 2 ^ 63" and "aggregate A b spec = Inr r"
    and "batch_carried S b" and "agg_folded S b spec"
  shows "(\<exists>out. fst (op_aggregate A B t b spec st) = Inr out \<and> agrees r out)
    \<or> (\<exists>e. fst (op_aggregate A B t b spec st) = Inl e \<and> \<not> unsupported_fault e \<and> is_gpu (be_kind B))"
  using with_fallback_result [where on_device = "op_aggregate_on_device A B b spec" and st = st,
      OF conforming_backend.aggregate_on_device [OF assms], of B "be_supports_aggregate B" "''aggregation''"
      "aggregate A b spec" "num_rows b" t] assms(6) conforming_backend.agrees_refl [OF assms(1)]
  unfolding op_aggregate_def by auto

theorem operator_aggregate_matches_witness:
  "\<exists>r. aggregate arrow_ref sample_table \<lparr>group_by = 0, aggregates = [(AggCount, 0)]\<rparr> = Inr r \<and>
    ((\<exists>out. fst (op_aggregate arrow_ref sample_gpu 4 sample_table \<lparr>group_by = 0, aggregates = [(AggCount, 0)]\<rparr> sample_operator)
        = Inr out \<and> r = out)
     \<or> (\<exists>e. fst (op_aggregate arrow_ref sample_gpu 4 sample_table \<lparr>group_by = 0, aggregates = [(AggCount, 0)]\<rparr> sample_operator)
        = Inl e \<and> \<not> unsupported_fault e \<and> is_gpu (be_kind sample_gpu)))"
proof -
  let ?spec = "\<lparr>group_by = 0, aggregates = [(AggCount, 0)]\<rparr>"
  have key: "key_column sample_table (group_by ?spec) [Some 1, None, Some 5]" by (simp add: key_column_def sample_table_def)
  have agg: "aggregable sample_table ?spec" by (simp add: aggregable_def sample_table_def gpu_eligible_scalar_def)
  have rows: "num_rows sample_table < 2 ^ 63" by (simp add: sample_table_def)
  have "input_at sample_table 0 = InI [Some 1, None, Some 5]"
    by (simp add: input_at_def sample_table_def int64_array_def)
  then obtain r where "aggregate arrow_ref sample_table ?spec = Inr r"
    using aref.aggregate_rows [OF sample_table_ok key agg rows] by (auto simp: aggregate_result_def)
  then show ?thesis
    using operator_aggregate_matches [OF sample_gpu_conforms sample_table_ok key agg rows, of r 4 sample_operator]
    by (simp add: sample_table_def u32_max_def)
qed

text \<open>
  C25: Vector distance on a device sends the vector column only, and returns the whole input batch
  unchanged with one column appended that is as near to the reference distances as the backend
  promises; where the batch falls back the column is the reference itself.
\<close>

theorem operator_distance_matches:
  assumes "conforming_backend A B holds agrees near S" and "batch_ok b" and "i < length (columns b)"
    and "vector_dimension (arr_type (columns b ! i)) = Some d" and "length query = d" and "num_rows b < 2 ^ 63"
    and "batch_carried S b"
  shows "(\<exists>c. near (distance_column b i query metric) c
        \<and> fst (op_vector_distance A B t b i query metric name st) = Inr (append_column b name c))
    \<or> (\<exists>e. fst (op_vector_distance A B t b i query metric name st) = Inl e \<and> \<not> unsupported_fault e \<and> is_gpu (be_kind B))"
proof -
  have "arrow_compute A" using assms(1) by (rule conforming_backend.axioms(1))
  then have "vector_distance A b i query metric name = Inr (append_column b name (distance_column b i query metric))"
    using arrow_compute.vector_distance_rows [OF _ assms(2-5)] by (simp add: append_column_def distance_column_def)
  then show ?thesis
    using with_fallback_result [where on_device = "op_vector_distance_on_device A B b i query metric name" and st = st,
        OF conforming_backend.distance_on_device [OF assms], of B True "''vector distance''"
        "vector_distance A b i query metric name" "num_rows b" t] conforming_backend.near_refl [OF assms(1)]
    unfolding op_vector_distance_def by auto
qed

definition sample_vectors :: batch where
  "sample_vectors = \<lparr>schema = [Field ''e'' (FixedSizeList (Field ''item'' Float32 True) 1) True],
     columns = [\<lparr>arr_type = FixedSizeList (Field ''item'' Float32 True) 1, cells = [Some (CVec [(True, 0)]), None]\<rparr>],
     num_rows = 2\<rparr>"

theorem operator_distance_matches_witness:
  "(\<exists>c. distance_column sample_vectors 0 [0] L2 = c
        \<and> fst (op_vector_distance arrow_ref sample_gpu 4 sample_vectors 0 [0] L2 ''d'' sample_operator)
            = Inr (append_column sample_vectors ''d'' c))
    \<or> (\<exists>e. fst (op_vector_distance arrow_ref sample_gpu 4 sample_vectors 0 [0] L2 ''d'' sample_operator) = Inl e
        \<and> \<not> unsupported_fault e \<and> is_gpu (be_kind sample_gpu))"
  by (rule operator_distance_matches [OF sample_gpu_conforms])
    (simp_all add: sample_vectors_def batch_ok_def columns_fit_def column_fits_def array_ok_def u32_max_def)

end
