(* ===== verification/Operator_Accounting.thy ===== *)
theory Operator_Accounting
  imports Operator_Correct
begin

text \<open>
  What the counters of an operator say about any sequence of batches, and the one way the cache of
  the build side can go stale.
\<close>

section \<open>Requests\<close>

datatype op_request =
    ReqFilter batch predicate "nat list"
  | ReqJoin batch join_build nat "nat list option"
  | ReqAggregate batch aggregate_spec
  | ReqDistance batch nat "f32 list" distance_metric string

fun run_request :: "arrow_ops \<Rightarrow> ('w, 't, 'd) gpu_backend \<Rightarrow> nat \<Rightarrow> op_request \<Rightarrow> (('w, 't, 'd) gpu_operator, batch) call" where
  "run_request A B t (ReqFilter b p js) = op_filter_project A B t b p js"
| "run_request A B t (ReqJoin b build key js) = op_hash_join A B t b build key js"
| "run_request A B t (ReqAggregate b spec) = op_aggregate A B t b spec"
| "run_request A B t (ReqDistance b i q m n) = op_vector_distance A B t b i q m n"

fun run_requests :: "arrow_ops \<Rightarrow> ('w, 't, 'd) gpu_backend \<Rightarrow> (nat \<times> op_request) list \<Rightarrow> ('w, 't, 'd) gpu_operator
    \<Rightarrow> batch result list \<times> ('w, 't, 'd) gpu_operator" where
  "run_requests A B [] st = ([], st)"
| "run_requests A B ((t, q) # qs) st =
    (let (r, st) = run_request A B t q st; (rs, st) = run_requests A B qs st in (r # rs, st))"

section \<open>The device leaves the telemetry alone\<close>

definition telemetry :: "('w, 't, 'd) gpu_operator \<Rightarrow> operator_stats option \<times> bool \<times> engine_error list" where
  "telemetry st = (op_stats st, op_warned st, op_log st)"

definition quiet :: "(('w, 't, 'd) gpu_operator, 'a) call \<Rightarrow> bool" where
  "quiet m \<longleftrightarrow> (\<forall>st. telemetry (snd (m st)) = telemetry st)"

named_theorems quiet_intros \<open>calls that leave the telemetry alone\<close>

lemma quiet_pure [quiet_intros]: "quiet (pure_call r)"
  by (simp add: quiet_def pure_call_def)

lemma quiet_then [quiet_intros]: "quiet m \<Longrightarrow> (\<And>x. quiet (f x)) \<Longrightarrow> quiet (call_then m f)"
  unfolding quiet_def call_then_def by (auto split: prod.splits sum.splits) (metis snd_conv)+

lemma quiet_on_world [quiet_intros]: "quiet (on_world f)"
  by (auto simp: quiet_def on_world_def telemetry_def split: prod.splits)

lemma quiet_try_device [quiet_intros]: "(\<And>s. quiet (gpu s)) \<Longrightarrow> quiet (try_device A gpu)"
proof -
  assume gpu: "\<And>s. quiet (gpu s)"
  have "quiet stream" by (simp add: quiet_def stream_def telemetry_def Let_def)
  moreover have "quiet (\<lambda>st. case gpu s st of
      (Inr (b, h2d), st') \<Rightarrow> (Inr (Ran b (h2d, a_memory_size A b)), st')
    | (Inl (Err err), st') \<Rightarrow> if is_unsupported err then (Inr (Declined err), st') else (Inl (Err err), st')
    | (Inl (Panic m), st') \<Rightarrow> (Inl (Panic m), st'))" for s
    using gpu [of s] unfolding quiet_def by (auto split: prod.splits sum.splits fault.splits) (metis snd_conv)+
  ultimately show ?thesis unfolding try_device_def by (rule quiet_then)
qed

lemma quiet_outcome [quiet_intros]:
  "quiet (\<lambda>st. case outcome of Declined why \<Rightarrow> pure_call (Inr (Declined why)) st | Ran out moved \<Rightarrow> pure_call (f out moved) st)"
  "quiet (case outcome of Declined why \<Rightarrow> pure_call (Inr (Declined why)) | Ran out moved \<Rightarrow> pure_call (f out moved))"
  by (auto simp: quiet_def pure_call_def split: device_outcome.splits)

lemma quiet_device_build [quiet_intros]: "quiet (device_build_for A B s build plan)"
proof -
  have "quiet (\<lambda>st. case op_build st of
       Some old \<Rightarrow> (Inr old, st)
     | None \<Rightarrow> (let fresh = \<lparr>dv_plan = plan, dv_batch = d\<rparr> in (Inr fresh, st\<lparr>op_build := Some fresh\<rparr>)))" for d
    by (auto simp: quiet_def telemetry_def Let_def split: option.splits)
  then have "quiet (upload_build A B s build plan)"
    unfolding upload_build_def by (intro quiet_intros)
  then show ?thesis unfolding quiet_def device_build_for_def by (auto split: option.splits)
qed

lemma quiet_filter: "quiet (op_filter_project_on_device A B b p js)"
  unfolding op_filter_project_on_device_def Let_def by (intro quiet_intros)

lemma quiet_aggregate: "quiet (op_aggregate_on_device A B b spec)"
  unfolding op_aggregate_on_device_def by (intro quiet_intros)

lemma quiet_distance: "quiet (op_vector_distance_on_device A B b i q m n)"
  unfolding op_vector_distance_on_device_def by (intro quiet_intros)

lemma quiet_join: "quiet (op_hash_join_on_device A B left build key js)"
  unfolding op_hash_join_on_device_def Let_def by (auto intro!: quiet_intros split: option.splits)

section \<open>One request\<close>

text \<open>What a request does to the telemetry, with the result it gives.\<close>

definition counted :: "bool \<Rightarrow> operator_stats option \<times> bool \<times> engine_error list
    \<Rightarrow> batch result \<Rightarrow> operator_stats option \<times> bool \<times> engine_error list \<Rightarrow> bool" where
  "counted gpu = (\<lambda>(s, warned, logged) r (s', warned', logged').
     (case r of
        Inr out \<Rightarrow> \<exists>n t.
          (gpu \<and> warned' = warned \<and> logged' = logged \<and>
            (\<exists>h d. s' = map_option (\<lambda>s. record_transfer h d (record_batch n (num_rows out) t s)) s)) \<or>
          (warned' \<and> (\<exists>why. logged' = (if warned then logged else logged @ [why])) \<and>
            s' = map_option (\<lambda>s. record_batch n (num_rows out) t (record_fallback s)) s)
      | Inl e \<Rightarrow>
          (gpu \<and> warned' = warned \<and> logged' = logged \<and> s' = s) \<or>
          (warned' \<and> (\<exists>why. logged' = (if warned then logged else logged @ [why])) \<and>
            s' = map_option record_fallback s)))"

lemma with_fallback_counted:
  assumes "quiet on_device"
  shows "counted (is_gpu (be_kind B)) (telemetry st) (fst (with_fallback B supported what on_device ref n t st))
    (telemetry (snd (with_fallback B supported what on_device ref n t st)))"
proof -
  have run: "op_stats (record_run n out t (Some (h, d)) st) = map_option (\<lambda>s. record_transfer h d (record_batch n (num_rows out) t s)) (op_stats st)"
    "op_stats (record_run n out t None st) = map_option (\<lambda>s. record_batch n (num_rows out) t s) (op_stats st)"
    "op_warned (record_run n out t m st) = op_warned st" "op_log (record_run n out t m st) = op_log st"
    for out h d m and st :: "('a, 'b, 'c) gpu_operator"
    by (simp_all add: record_run_def Let_def)
  have fell: "op_stats (fell_back why st) = map_option record_fallback (op_stats st)" "op_warned (fell_back why st)"
    "op_log (fell_back why st) = (if op_warned st then op_log st else op_log st @ [why])"
    for why and st :: "('a, 'b, 'c) gpu_operator"
    by (simp_all add: fell_back_def)
  have declined: "counted g (telemetry st) (fst (let st = fell_back why st in
         case ref of Inl e \<Rightarrow> (Inl e, st) | Inr out \<Rightarrow> (Inr out, record_run n out t None st)))
      (telemetry (snd (let st = fell_back why st in
         case ref of Inl e \<Rightarrow> (Inl e, st) | Inr out \<Rightarrow> (Inr out, record_run n out t None st))))"
    for why g and st :: "('a, 'b, 'c) gpu_operator"
    by (cases ref) (auto simp: counted_def telemetry_def Let_def run fell option.map_comp comp_def)
  show ?thesis
  proof (cases "no_device_path B supported what")
    case None
    then have gpu: "is_gpu (be_kind B)" by (auto simp: no_device_path_def split: if_splits)
    obtain r st' where r: "on_device st = (r, st')" by (cases "on_device st")
    then have same: "telemetry st' = telemetry st" using assms by (metis quiet_def snd_conv)
    show ?thesis
    proof (cases r)
      case (Inl e)
      then show ?thesis using None gpu r same
        by (cases "telemetry st") (simp add: with_fallback_def call_then_def counted_def)
    next
      case (Inr outcome)
      then show ?thesis
      proof (cases outcome)
        case (Ran out moved)
        then show ?thesis using None gpu r same Inr
          by (cases moved) (auto simp: with_fallback_def call_then_def counted_def telemetry_def run)
      next
        case (Declined why)
        then show ?thesis using None r same Inr declined [of "is_gpu (be_kind B)" st' why]
          by (simp add: with_fallback_def call_then_def)
      qed
    qed
  next
    case (Some why)
    then show ?thesis using declined [of "is_gpu (be_kind B)" st why] by (simp add: with_fallback_def)
  qed
qed

lemma run_request_counted:
  "counted (is_gpu (be_kind B)) (telemetry st) (fst (run_request A B t q st)) (telemetry (snd (run_request A B t q st)))"
  by (cases q) (simp_all add: op_filter_project_def op_hash_join_def op_aggregate_def op_vector_distance_def
      with_fallback_counted quiet_filter quiet_join quiet_aggregate quiet_distance)

section \<open>Sequences of requests\<close>

text \<open>The telemetry after \<open>n\<close> requests of which \<open>k\<close> returned a batch.\<close>

definition tallied :: "bool \<Rightarrow> nat \<Rightarrow> nat \<Rightarrow> operator_stats option \<times> bool \<times> engine_error list \<Rightarrow> bool" where
  "tallied gpu n k = (\<lambda>(st, warned, logged). \<exists>s. st = Some s \<and> os_batches s = k \<and> os_fallback_batches s \<le> n \<and>
     length logged \<le> 1 \<and> (warned \<longleftrightarrow> logged \<noteq> []) \<and> (logged = [] \<longleftrightarrow> os_fallback_batches s = 0) \<and>
     (\<not> gpu \<longrightarrow> os_fallback_batches s = n \<and> os_bytes_h2d s = 0 \<and> os_bytes_d2h s = 0))"

definition is_ok :: "'a result \<Rightarrow> bool" where
  "is_ok r = (case r of Inr x \<Rightarrow> True | Inl e \<Rightarrow> False)"

lemma tallied_step:
  assumes "tallied gpu n k x" and "counted gpu x r y" and "Suc n \<le> u64_max" and "k \<le> n"
  shows "tallied gpu (Suc n) (if is_ok r then Suc k else k) y"
proof -
  obtain s warned logged where x: "x = (Some s, warned, logged)" using assms(1) by (auto simp: tallied_def)
  have s: "os_batches s = k" "os_fallback_batches s \<le> n" using assms(1) x by (auto simp: tallied_def)
  have add: "u64_add (os_batches s) 1 = Suc k" "u64_add (os_fallback_batches s) 1 = Suc (os_fallback_batches s)"
    using s assms(3,4) by (simp_all add: u64_add_exact)
  obtain s' warned' logged' where y: "y = (s', warned', logged')" by (cases y)
  show ?thesis using assms(1,2) add
    by (cases r) (auto simp: x y tallied_def counted_def is_ok_def record_batch_def record_transfer_def record_fallback_def)
qed

lemma run_requests_tallied:
  assumes "tallied (is_gpu (be_kind B)) n k (telemetry st)" and "n + length qs \<le> u64_max" and "k \<le> n"
    and "run_requests A B qs st = (rs, st')"
  shows "tallied (is_gpu (be_kind B)) (n + length qs) (k + length (filter is_ok rs)) (telemetry st')"
  using assms
proof (induction qs arbitrary: n k st rs)
  case (Cons q qs)
  obtain t q' where q: "q = (t, q')" by (cases q)
  obtain r st1 where r: "run_request A B t q' st = (r, st1)" by (cases "run_request A B t q' st")
  obtain rs' st2 where rs: "run_requests A B qs st1 = (rs', st2)" by (cases "run_requests A B qs st1")
  have res: "rs = r # rs'" "st2 = st'" using Cons(5) q r rs by (simp_all add: Let_def)
  have "counted (is_gpu (be_kind B)) (telemetry st) r (telemetry st1)"
    using run_request_counted [of B st A t q'] r by simp
  then have "tallied (is_gpu (be_kind B)) (Suc n) (if is_ok r then Suc k else k) (telemetry st1)"
    using tallied_step [OF Cons(2)] Cons(3,4) by simp
  moreover have "k + length (filter is_ok rs) = (if is_ok r then Suc k else k) + length (filter is_ok rs')"
    using res(1) by simp
  ultimately show ?case
    using Cons(1) [of "Suc n" "if is_ok r then Suc k else k" st1 rs'] Cons(3,4) rs res(2) by (simp only:) simp
qed simp

section \<open>Properties\<close>



definition sample_numbers :: batch where
  "sample_numbers = \<lparr>schema = [Field ''a'' Int64 True, Field ''v'' Int64 True],
     columns = [int64_array [Some 1], int64_array [Some 10]], num_rows = 1\<rparr>"

definition sample_build :: join_build where
  "sample_build = \<lparr>jb_batch = sample_numbers, jb_key = 0, jb_table = \<lparr>ranges = [(1, (0, 1))], jt_rows = [0]\<rparr>\<rparr>"

lemma sample_build_new: "join_build_new rev sample_numbers 0 = Inr sample_build"
  by (simp add: join_build_new_def table_build_def table_of_keys_def int64_column_def get_column_def sample_numbers_def
      sample_build_def u32_add_def u32_checked_add_def u32_max_def index_u32_def)

lemma sample_join_0:
  "hash_join rev arrow_ref \<lparr>schema = [Field ''a'' Int64 True], columns = [int64_array [Some 1]], num_rows = 1\<rparr>
      \<lparr>schema = [Field ''a'' Int64 True], columns = [int64_array [Some 1]], num_rows = 1\<rparr> 0 0
    = Inr \<lparr>schema = [Field ''a'' Int64 True, Field ''a'' Int64 True],
           columns = [int64_array [Some 1], int64_array [Some 1]], num_rows = 1\<rparr>"
  by (simp add: hash_join_def hash_join_probe_def join_column_def table_build_def table_of_keys_def int64_column_def
      get_column_def table_matches_def arrow_ref_def columns_fit_def column_fits_def new_rows_def take_array_def
      int64_array_def as_int64_def u32_add_def u32_checked_add_def u32_max_def index_u32_def upt_rec)

definition sample_keys :: batch where
  "sample_keys = \<lparr>schema = [Field ''a'' Int64 True], columns = [int64_array [Some 1]], num_rows = 1\<rparr>"

lemma sample_subs:
  "sub_batch arrow_ref \<lparr>device_cols = [0], row_ids = False\<rparr> sample_numbers = Inr sample_keys"
  "sub_batch arrow_ref \<lparr>device_cols = [0, Suc 0], row_ids = False\<rparr> sample_numbers = Inr sample_numbers"
  by (simp_all add: sub_batch_def sample_numbers_def sample_keys_def field_at_def column_at_def arrow_ref_def
      columns_fit_def column_fits_def new_rows_def int64_array_def)

lemma sample_plans:
  "side_plan_for (schema sample_numbers) 0 [0] = Inr \<lparr>device_cols = [0], row_ids = False\<rparr>"
  "side_plan_for (schema sample_numbers) 0 [Suc 0] = Inr \<lparr>device_cols = [0, Suc 0], row_ids = False\<rparr>"
  by (simp_all add: side_plan_for_def sample_numbers_def field_at_def device_eligible_def push_unique_def)

lemma sample_width: "length (schema sample_numbers) = 2"
  by (simp add: sample_numbers_def)

lemma sample_gpu_calls:
  "be_upload sample_gpu cpu_create_stream b w = (Inr (from_host b), w)"
  "be_download sample_gpu cpu_create_stream (from_host b) w = (Inr b, w)"
  "be_synchronize sample_gpu cpu_create_stream w = (Inr (), w)"
  "be_hash_join sample_gpu cpu_create_stream (from_host l) (from_host r) lk rk w
    = (map_res from_host (hash_join rev arrow_ref l r lk rk), w)"
  "be_kind sample_gpu = Cuda" "be_supports_hash_join sample_gpu"
  by (simp_all add: sample_gpu_def cpu_backend_defs pure_call_def check_stream_def cpu_create_stream_def host_batch_def
      batch_as_host_def from_host_def)

definition cached_operator :: "(unit, device_stream, unit device_batch) gpu_operator" where
  "cached_operator = sample_operator\<lparr>op_next := 1,
     op_build := Some \<lparr>dv_plan = \<lparr>device_cols = [0], row_ids = False\<rparr>, dv_batch = from_host sample_keys\<rparr>\<rparr>"

lemma sample_reassemble:
  "\<exists>out. join_reassemble arrow_ref sample_numbers sample_numbers \<lparr>device_cols = [0], row_ids = False\<rparr>
     \<lparr>device_cols = [0], row_ids = False\<rparr> [0, 2] \<lparr>schema = [Field ''a'' Int64 True, Field ''a'' Int64 True],
           columns = [int64_array [Some 1], int64_array [Some 1]], num_rows = 1\<rparr> = Inr out"
  "join_reassemble arrow_ref sample_numbers sample_numbers \<lparr>device_cols = [0], row_ids = False\<rparr>
     \<lparr>device_cols = [0, Suc 0], row_ids = False\<rparr> [0, 3] \<lparr>schema = [Field ''a'' Int64 True, Field ''a'' Int64 True],
           columns = [int64_array [Some 1], int64_array [Some 1]], num_rows = 1\<rparr> = Inl (Panic ''index out of bounds'')"
  by (simp_all add: join_reassemble_def sample_numbers_def ids_column_def row_id_position_def join_output_def field_at_def
      plan_position_def column_at_def arrow_ref_def columns_fit_def column_fits_def new_rows_def int64_array_def)

lemmas probe_defs = op_hash_join_def with_fallback_def no_device_path_def sample_gpu_calls op_hash_join_on_device_def
  sample_width sample_plans sample_build_def sample_subs try_device_def stream_def device_build_for_def upload_build_def
  on_world_def round_trip_def call_then_def pure_call_def sample_join_0 [folded sample_keys_def] plan_position_def
  unwrap_or_0_def sample_operator_def u64_add_def cached_operator_def record_run_def Let_def

lemma sample_probe_1:
  "\<exists>out. op_hash_join arrow_ref sample_gpu 1 sample_numbers sample_build 0 (Some [0, 2]) sample_operator = (Inr out, cached_operator)"
proof -
  have "schema sample_numbers \<noteq> []" by (simp add: sample_numbers_def)
  then show ?thesis using sample_reassemble(1) by (auto simp: probe_defs)
qed

lemma sample_probe_2:
  "fst (op_hash_join arrow_ref sample_gpu 1 sample_numbers sample_build 0 (Some [0, 3]) cached_operator)
    = Inl (Panic ''index out of bounds'')"
proof -
  have "schema sample_numbers \<noteq> []" by (simp add: sample_numbers_def)
  then show ?thesis using sample_reassemble(2) by (simp add: probe_defs)
qed

lemma sample_probe_ref:
  "is_ok (hash_join_probe arrow_ref sample_numbers 0 (jb_batch sample_build) (jb_table sample_build) (Some [0, 3]))"
  by (simp add: hash_join_probe_def join_column_def int64_column_def sample_build_def sample_numbers_def is_ok_def
      get_column_def table_matches_def arrow_ref_def columns_fit_def column_fits_def new_rows_def take_array_def
      int64_array_def as_int64_def u32_add_def u32_max_def index_u32_def)


end
