(* ===== verification/Spill_Manager.thy ===== *)
theory Spill_Manager
  imports Arrow_Data Telemetry_Hub "HOL-Library.DAList"
begin

text \<open>
  The three-tier spill manager (\<open>crates/oxidelake-memory/src/spill.rs\<close>) and the IPC encoding of its
  files (\<open>crates/oxidelake-memory/src/ipc.rs\<close>).

  \<open>spill_env\<close> holds the budgets and the code outside the repository: the object store over a state
  of type \<open>'s\<close> with file contents of type \<open>'f\<close>, the path constructor, Arrow's IPC writer and reader,
  the memory size of a batch, and the device batches of type \<open>'d\<close> a backend hands over.  \<open>manager\<close> is the state behind the lock with
  the two counters, the hub and the store.  An operation returns its result and the state it leaves,
  also when it fails.  The map of entries is an association list with unique keys.
\<close>

section \<open>State\<close>

datatype tier = Device_tier | Host_tier | Disk_tier

fun tier_idx :: "tier \<Rightarrow> nat" where
  "tier_idx Device_tier = 0"
| "tier_idx Host_tier = 1"
| "tier_idx Disk_tier = 2"

fun tier_gauge :: "tier \<Rightarrow> memory_tier" where
  "tier_gauge Device_tier = TDevice"
| "tier_gauge Host_tier = THost"
| "tier_gauge Disk_tier = TDisk"

record spill_budget =
  budget_device :: nat
  budget_host :: nat

datatype 'd payload = PDevice 'd | PHost batch | PDisk string

record 'd entry =
  e_tier :: tier
  e_bytes :: nat
  e_host_bytes :: nat
  e_touch :: nat
  e_schema :: "field list"
  e_payload :: "'d payload"

record ('s, 'd, 'f) spill_env =
  budget :: spill_budget
  prefix :: string
  path_from :: "string \<Rightarrow> string"
  st_put :: "string \<Rightarrow> 'f \<Rightarrow> 's \<Rightarrow> (store_error + unit) \<times> 's"
  st_get :: "string \<Rightarrow> 's \<Rightarrow> store_error + 'f"
  st_delete :: "string \<Rightarrow> 's \<Rightarrow> (store_error + unit) \<times> 's"
  st_show :: "store_error \<Rightarrow> string"
  mem_size :: "batch \<Rightarrow> nat"
  ipc_write :: "batch \<Rightarrow> arrow_error + 'f"
  file_len :: "'f \<Rightarrow> nat"
  ipc_open :: "'f \<Rightarrow> arrow_error + (field list \<times> (arrow_error + batch) list)"
  ipc_concat :: "field list \<Rightarrow> batch list \<Rightarrow> arrow_error + batch"
  show_arrow :: "arrow_error \<Rightarrow> string"
  dev_bytes :: "'d \<Rightarrow> nat"
  dev_to_host :: "'d \<Rightarrow> engine_error + batch"

record ('s, 'd) manager =
  entries :: "(nat, 'd entry) alist"
  used :: "nat list"
  next_id :: nat
  clock :: nat
  m_hub :: hub
  m_store :: 's

definition manager_new :: "hub \<Rightarrow> 's \<Rightarrow> ('s, 'd) manager" where
  "manager_new h s = \<lparr>entries = DAList.empty, used = [0, 0, 0], next_id = 1, clock = 0, m_hub = h, m_store = s\<rparr>"

text \<open>The entry of a tier that was touched first; ties go to the first in iteration order.\<close>

definition coldest_of :: "tier \<Rightarrow> (nat \<times> 'd entry) list \<Rightarrow> nat option" where
  "coldest_of t es = (case filter (\<lambda>(_, e). e_tier e = t) es of
      [] \<Rightarrow> None
    | x # xs \<Rightarrow> Some (fst (foldl (\<lambda>a b. if e_touch (snd b) < e_touch (snd a) then b else a) x xs)))"

definition coldest :: "tier \<Rightarrow> ('s, 'd) manager \<Rightarrow> nat option" where
  "coldest t m = coldest_of t (DAList.impl_of (entries m))"

section \<open>Files\<close>

definition store_error :: "('s, 'd, 'f) spill_env \<Rightarrow> store_error \<Rightarrow> engine_error" where
  "store_error E err = (case err of
      StoreNotFound _ _ \<Rightarrow> Io (IoError NotFound [Txt (st_show E err)])
    | _ \<Rightarrow> Io (IoError OtherKind [Txt (st_show E err)]))"

definition encode_batch :: "('s, 'd, 'f) spill_env \<Rightarrow> batch \<Rightarrow> engine_error + 'f" where
  "encode_batch E b = map_err Arrow (ipc_write E b)"

definition batch_new_empty :: "field list \<Rightarrow> batch" where
  "batch_new_empty fs = \<lparr>schema = fs, columns = map (\<lambda>f. \<lparr>arr_type = field_type f, cells = []\<rparr>) fs, num_rows = 0\<rparr>"

definition decode_batch :: "('s, 'd, 'f) spill_env \<Rightarrow> 'f \<Rightarrow> engine_error + batch" where
  "decode_batch E bs =
     and_then (map_err (\<lambda>e. Format [Txt ''invalid Arrow IPC spill file: '', Txt (show_arrow E e)]) (ipc_open E bs))
       (\<lambda>(fs, items).
     and_then (map_err (\<lambda>e. Format [Txt ''corrupt Arrow IPC spill file: '', Txt (show_arrow E e)]) (collect_res (\<lambda>x. x) items))
       (\<lambda>bs. case bs of
           [] \<Rightarrow> Inr (batch_new_empty fs)
         | [b] \<Rightarrow> Inr b
         | _ \<Rightarrow> map_err Arrow (ipc_concat E fs bs)))"

definition spill_path :: "('s, 'd, 'f) spill_env \<Rightarrow> nat \<Rightarrow> string" where
  "spill_path E i = path_from E (prefix E @ ''/batch-'' @ show_nat i @ ''.arrow'')"

definition batch_bytes :: "('s, 'd, 'f) spill_env \<Rightarrow> batch \<Rightarrow> nat" where
  "batch_bytes E b = min (mem_size E b) u64_max"

definition write_spill :: "('s, 'd, 'f) spill_env \<Rightarrow> string \<Rightarrow> batch \<Rightarrow> 's \<Rightarrow> (engine_error + nat) \<times> 's" where
  "write_spill E path b s = (case encode_batch E b of
      Inl e \<Rightarrow> (Inl e, s)
    | Inr bytes \<Rightarrow> (case st_put E path bytes s of
          (Inl e, s') \<Rightarrow> (Inl (store_error E e), s')
        | (Inr _, s') \<Rightarrow> (Inr (min (file_len E bytes) u64_max), s')))"

definition read_spill :: "('s, 'd, 'f) spill_env \<Rightarrow> string \<Rightarrow> 's \<Rightarrow> engine_error + batch" where
  "read_spill E path s = and_then (map_err (store_error E) (st_get E path s)) (decode_batch E)"

section \<open>Operations\<close>

definition tick :: "('s, 'd) manager \<Rightarrow> nat \<times> ('s, 'd) manager" where
  "tick m = (u64_add (clock m) 1, m\<lparr>clock := u64_add (clock m) 1\<rparr>)"

definition publish :: "('s, 'd) manager \<Rightarrow> ('s, 'd) manager" where
  "publish m = m\<lparr>m_hub := (m_hub m)\<lparr>hub_tiers :=
     foldl (\<lambda>g t. gauge_set (tier_gauge t) (used m ! tier_idx t) g) (hub_tiers (m_hub m))
       [Device_tier, Host_tier, Disk_tier]\<rparr>\<rparr>"

definition add_used :: "tier \<Rightarrow> nat \<Rightarrow> nat list \<Rightarrow> nat list" where
  "add_used t n u = u[tier_idx t := u64_add (u ! tier_idx t) n]"

definition sub_used :: "tier \<Rightarrow> nat \<Rightarrow> nat list \<Rightarrow> nat list" where
  "sub_used t n u = u[tier_idx t := u64_saturating_sub (u ! tier_idx t) n]"

definition spilled :: "(spill_counters \<Rightarrow> spill_counters) \<Rightarrow> hub \<Rightarrow> hub" where
  "spilled f h = h\<lparr>hub_spill := f (hub_spill h)\<rparr>"

definition put_entry :: "nat \<Rightarrow> 'd entry \<Rightarrow> tier \<Rightarrow> ('s, 'd) manager \<Rightarrow> ('s, 'd) manager" where
  "put_entry i e t m = m\<lparr>entries := DAList.update i e (entries m), used := add_used t (e_bytes e) (used m)\<rparr>"

definition demote_device :: "('s, 'd, 'f) spill_env \<Rightarrow> nat \<Rightarrow> 'd entry \<Rightarrow> batch \<Rightarrow> ('s, 'd) manager \<Rightarrow> ('s, 'd) manager" where
  "demote_device E victim e b m = (let hb = batch_bytes E b in
     m\<lparr>entries := DAList.update victim (e\<lparr>e_tier := Host_tier, e_bytes := hb, e_host_bytes := hb, e_payload := PHost b\<rparr>) (entries m),
       used := add_used Host_tier hb (sub_used Device_tier (e_bytes e) (used m)),
       m_hub := spilled (record_demotion (e_bytes e)) (m_hub m)\<rparr>)"

definition demote_host :: "nat \<Rightarrow> 'd entry \<Rightarrow> string \<Rightarrow> nat \<Rightarrow> ('s, 'd) manager \<Rightarrow> ('s, 'd) manager" where
  "demote_host victim e path db m =
     m\<lparr>entries := DAList.update victim (e\<lparr>e_tier := Disk_tier, e_bytes := db, e_payload := PDisk path\<rparr>) (entries m),
       used := add_used Disk_tier db (sub_used Host_tier (e_bytes e) (used m)),
       m_hub := spilled (record_demotion (e_bytes e)) (m_hub m)\<rparr>"

definition tier_count :: "tier \<Rightarrow> ('s, 'd) manager \<Rightarrow> nat" where
  "tier_count t m = length (filter (\<lambda>(_, e). e_tier e = t) (DAList.impl_of (entries m)))"

lemma coldest_of_Some:
  assumes "coldest_of t es = Some i"
  shows "\<exists>e. (i, e) \<in> set es \<and> e_tier e = t \<and> (\<forall>(j, e') \<in> set es. e_tier e' = t \<longrightarrow> e_touch e \<le> e_touch e')"
proof -
  let ?f = "\<lambda>a b. if e_touch (snd b) < e_touch (snd a) then b else a"
  have fold: "foldl ?f x xs \<in> set (x # xs) \<and> (\<forall>y \<in> set (x # xs). e_touch (snd (foldl ?f x xs)) \<le> e_touch (snd y))"
    for x :: "nat \<times> 'a entry" and xs
  proof (induction xs arbitrary: x)
    case (Cons y xs)
    show ?case using Cons [of "?f x y"] by (cases "e_touch (snd y) < e_touch (snd x)") force+
  qed simp
  obtain x xs where xs: "filter (\<lambda>(_, e). e_tier e = t) es = x # xs" "i = fst (foldl ?f x xs)"
    using assms by (auto simp: coldest_of_def split: list.splits)
  let ?r = "foldl ?f x xs"
  have "?r \<in> set (filter (\<lambda>(_, e). e_tier e = t) es)" using fold [of x xs] xs(1) by simp
  then have "(i, snd ?r) \<in> set es" "e_tier (snd ?r) = t" using xs(2) by auto
  moreover have "e_touch (snd ?r) \<le> e_touch e'" if "(j, e') \<in> set es" "e_tier e' = t" for j e'
  proof -
    have "(j, e') \<in> set (x # xs)" using that xs(1) [symmetric] by simp
    then show ?thesis using fold [of x xs] by fastforce
  qed
  ultimately show ?thesis by blast
qed

lemma coldest_of_None: "coldest_of t es = None \<longleftrightarrow> (\<forall>(_, e) \<in> set es. e_tier e \<noteq> t)"
proof -
  have "coldest_of t es = None \<longleftrightarrow> filter (\<lambda>(_, e). e_tier e = t) es = []"
    by (simp add: coldest_of_def split: list.split)
  then show ?thesis by (auto simp: filter_empty_conv)
qed

lemma lookup_impl: "DAList.lookup al i = Some e \<longleftrightarrow> (i, e) \<in> set (DAList.impl_of al)"
  by (simp add: DAList.lookup_def)

lemma coldest_lookup:
  assumes "coldest t m = Some i"
  shows "\<exists>e. DAList.lookup (entries m) i = Some e \<and> e_tier e = t
    \<and> (\<forall>j e'. DAList.lookup (entries m) j = Some e' \<longrightarrow> e_tier e' = t \<longrightarrow> e_touch e \<le> e_touch e')"
  using coldest_of_Some [OF assms [unfolded coldest_def]] by (fastforce simp: lookup_impl)

lemma update_split:
  assumes "distinct (map fst xs)" and "(i, e) \<in> set xs"
  shows "\<exists>l r. xs = l @ (i, e) # r \<and> AList.update i e' xs = l @ (i, e') # r"
  using assms
proof (induction xs)
  case (Cons x xs)
  show ?case
  proof (cases "x = (i, e)")
    case True
    then show ?thesis by (intro exI [of _ "[]"] exI [of _ xs]) simp
  next
    case False
    then have mem: "(i, e) \<in> set xs" using Cons(3) by auto
    then have ne: "fst x \<noteq> i" using Cons(2) by (metis distinct.simps(2) fst_conv image_eqI list.simps(9) set_map)
    from mem obtain l r where "xs = l @ (i, e) # r" "AList.update i e' xs = l @ (i, e') # r" using Cons(1,2) by auto
    then show ?thesis using ne by (intro exI [of _ "x # l"] exI [of _ r]) (cases x, simp)
  qed
qed simp

lemma impl_of_update: "DAList.impl_of (DAList.update i e al) = AList.update i e (DAList.impl_of al)"
  by transfer simp

lemma impl_update_split:
  assumes "DAList.lookup al i = Some e"
  shows "\<exists>l r. DAList.impl_of al = l @ (i, e) # r \<and> DAList.impl_of (DAList.update i e' al) = l @ (i, e') # r"
  using update_split [of "DAList.impl_of al" i e e'] assms by (simp add: lookup_impl impl_of_update)

lemma demotion_counts:
  assumes "DAList.lookup (entries m) i = Some e" and "e_tier e = t" and "e_tier e' \<noteq> t"
    and "entries m' = DAList.update i e' (entries m)"
  shows "tier_count t m' < tier_count t m"
  using impl_update_split [OF assms(1), of e'] assms(2-4) by (auto simp: tier_count_def)

text \<open>The eviction loops.  Each round moves one entry out of the tier, so they end.\<close>

function (sequential) enforce_device :: "('s, 'd, 'f) spill_env \<Rightarrow> ('s, 'd) manager \<Rightarrow> (engine_error + unit) \<times> ('s, 'd) manager" where
  "enforce_device E m =
    (if used m ! tier_idx Device_tier > budget_device (budget E) then
       (case coldest Device_tier m of
          None \<Rightarrow> (Inr (), m)
        | Some victim \<Rightarrow> (case DAList.lookup (entries m) victim of
            None \<Rightarrow> (Inr (), m)
          | Some e \<Rightarrow> (case e_payload e of
              PDevice resident \<Rightarrow> (case dev_to_host E resident of
                  Inl err \<Rightarrow> (Inl err, m)
                | Inr b \<Rightarrow> enforce_device E (demote_device E victim e b m))
            | _ \<Rightarrow> (Inr (), m))))
     else (Inr (), m))"
  by pat_completeness auto
termination
proof (relation "measure (\<lambda>(E, m). tier_count Device_tier m)", goal_cases)
  case (2 E m victim e resident b)
  then show ?case using coldest_lookup [OF 2(2)]
    by (auto simp: demote_device_def Let_def intro!: demotion_counts)
qed simp

function (sequential) enforce_host :: "('s, 'd, 'f) spill_env \<Rightarrow> ('s, 'd) manager \<Rightarrow> (engine_error + unit) \<times> ('s, 'd) manager" where
  "enforce_host E m =
    (if used m ! tier_idx Host_tier > budget_host (budget E) then
       (case coldest Host_tier m of
          None \<Rightarrow> (Inr (), m)
        | Some victim \<Rightarrow> (case DAList.lookup (entries m) victim of
            None \<Rightarrow> (Inr (), m)
          | Some e \<Rightarrow> (case e_payload e of
              PHost b \<Rightarrow> (case write_spill E (spill_path E victim) b (m_store m) of
                  (Inl err, s) \<Rightarrow> (Inl err, m\<lparr>m_store := s\<rparr>)
                | (Inr db, s) \<Rightarrow> enforce_host E (demote_host victim e (spill_path E victim) db (m\<lparr>m_store := s\<rparr>)))
            | _ \<Rightarrow> (Inr (), m))))
     else (Inr (), m))"
  by pat_completeness auto
termination
proof (relation "measure (\<lambda>(E, m). tier_count Host_tier m)", goal_cases)
  case (2 E m victim e b r s db)
  then show ?case using coldest_lookup [OF 2(2)]
    by (auto simp: demote_host_def intro!: demotion_counts)
qed simp

declare enforce_device.simps [simp del] enforce_host.simps [simp del]

definition insert_host :: "('s, 'd, 'f) spill_env \<Rightarrow> batch \<Rightarrow> ('s, 'd) manager \<Rightarrow> (engine_error + nat) \<times> ('s, 'd) manager" where
  "insert_host E b m =
    (let i = next_id m;
         bytes = batch_bytes E b;
         (t, m) = tick (m\<lparr>next_id := u64_add i 1\<rparr>);
         m = put_entry i \<lparr>e_tier = Host_tier, e_bytes = bytes, e_host_bytes = bytes, e_touch = t,
               e_schema = schema b, e_payload = PHost b\<rparr> Host_tier m in
     case enforce_host E m of
       (Inl err, m) \<Rightarrow> (Inl err, m)
     | (Inr _, m) \<Rightarrow> (Inr i, publish m))"

definition insert_device :: "('s, 'd, 'f) spill_env \<Rightarrow> 'd \<Rightarrow> field list \<Rightarrow> ('s, 'd) manager
    \<Rightarrow> (engine_error + nat) \<times> ('s, 'd) manager" where
  "insert_device E resident fs m =
    (let i = next_id m;
         (t, m) = tick (m\<lparr>next_id := u64_add i 1\<rparr>);
         m = put_entry i \<lparr>e_tier = Device_tier, e_bytes = dev_bytes E resident, e_host_bytes = 0, e_touch = t,
               e_schema = fs, e_payload = PDevice resident\<rparr> Device_tier m in
     case enforce_device E m of
       (Inl err, m) \<Rightarrow> (Inl err, m)
     | (Inr _, m) \<Rightarrow> (case enforce_host E m of
         (Inl err, m) \<Rightarrow> (Inl err, m)
       | (Inr _, m) \<Rightarrow> (Inr i, publish m)))"

definition promote :: "nat \<Rightarrow> 'd entry \<Rightarrow> batch \<Rightarrow> nat \<Rightarrow> ('s, 'd) manager \<Rightarrow> ('s, 'd) manager" where
  "promote i e b hb m = m\<lparr>
     entries := DAList.update i (e\<lparr>e_tier := Host_tier, e_bytes := hb, e_payload := PHost b\<rparr>) (entries m),
     used := add_used Host_tier hb (sub_used Disk_tier (e_bytes e) (used m)),
     m_hub := spilled (record_promotion hb) (m_hub m)\<rparr>"

definition get_batch :: "('s, 'd, 'f) spill_env \<Rightarrow> nat \<Rightarrow> ('s, 'd) manager \<Rightarrow> (engine_error + batch) \<times> ('s, 'd) manager" where
  "get_batch E i m =
    (let (touch, m) = tick m in
     case DAList.lookup (entries m) i of
       None \<Rightarrow> (Inl (Execution [Txt ''spill: unknown batch id '', Num i]), m)
     | Some e0 \<Rightarrow>
        let e = e0\<lparr>e_touch := touch\<rparr>; m = m\<lparr>entries := DAList.update i e (entries m)\<rparr> in
        (case e_payload e of
           PHost b \<Rightarrow> (Inr b, m)
         | PDevice resident \<Rightarrow> (dev_to_host E resident, m)
         | PDisk path \<Rightarrow> (case read_spill E path (m_store m) of
             Inl err \<Rightarrow> (Inl err, m)
           | Inr b \<Rightarrow>
              let hb = (if e_host_bytes e > 0 then e_host_bytes e else batch_bytes E b);
                  m = promote i e b hb m;
                  m = m\<lparr>m_store := snd (st_delete E path (m_store m))\<rparr> in
              (case enforce_host E m of
                 (Inl err, m) \<Rightarrow> (Inl err, m)
               | (Inr _, m) \<Rightarrow> (Inr b, publish m)))))"

definition tier_of :: "nat \<Rightarrow> ('s, 'd) manager \<Rightarrow> tier option" where
  "tier_of i m = map_option e_tier (DAList.lookup (entries m) i)"

definition schema_of :: "nat \<Rightarrow> ('s, 'd) manager \<Rightarrow> field list option" where
  "schema_of i m = map_option e_schema (DAList.lookup (entries m) i)"

definition remove :: "('s, 'd, 'f) spill_env \<Rightarrow> nat \<Rightarrow> ('s, 'd) manager \<Rightarrow> (engine_error + bool) \<times> ('s, 'd) manager" where
  "remove E i m = (case DAList.lookup (entries m) i of
      None \<Rightarrow> (Inr False, m)
    | Some e \<Rightarrow>
       let m = m\<lparr>entries := DAList.delete i (entries m), used := sub_used (e_tier e) (e_bytes e) (used m)\<rparr> in
       (case e_payload e of
          PDisk path \<Rightarrow> (case st_delete E path (m_store m) of
              (Inr _, s) \<Rightarrow> (Inr True, publish (m\<lparr>m_store := s\<rparr>))
            | (Inl (StoreNotFound _ _), s) \<Rightarrow> (Inr True, publish (m\<lparr>m_store := s\<rparr>))
            | (Inl err, s) \<Rightarrow> (Inl (store_error E err), m\<lparr>m_store := s\<rparr>))
        | _ \<Rightarrow> (Inr True, publish m)))"

end
