(* ===== verification/Spill_Correct.thy ===== *)
theory Spill_Correct
  imports Spill_Manager
begin

text \<open>
  Correctness of the spill manager.  Its contract is a map from identifiers to batches: \<open>held\<close> is the
  abstraction, and every operation acts on it as the map operation of its name whatever tier a batch
  is in and whatever fails.  The invariant \<open>spill_ok\<close> ties the byte counters to the entries, the
  payloads to the tiers and the spilled entries to their files.

  The object store is an interface: \<open>object_store\<close> says what its contents are after each call, with
  failures allowed; \<open>spill_world\<close> adds the IPC round trip and distinct paths; \<open>reliable_world\<close> adds
  that nothing fails.  \<open>mem_env\<close>, a store in memory, interprets them.
\<close>

section \<open>Interfaces\<close>

locale object_store =
  fixes content :: "'s \<Rightarrow> string \<Rightarrow> 'f option"
    and put :: "string \<Rightarrow> 'f \<Rightarrow> 's \<Rightarrow> (store_error + unit) \<times> 's"
    and get :: "string \<Rightarrow> 's \<Rightarrow> store_error + 'f"
    and del :: "string \<Rightarrow> 's \<Rightarrow> (store_error + unit) \<times> 's"
  assumes put_ok: "put p f s = (Inr u, s') \<Longrightarrow> content s' = (content s)(p \<mapsto> f)"
    and put_err: "put p f s = (Inl e, s') \<Longrightarrow> q \<noteq> p \<Longrightarrow> content s' q = content s q"
    and get_ok: "get p s = Inr f \<Longrightarrow> content s p = Some f"
    and del_ok: "del p s = (Inr u, s') \<Longrightarrow> content s' = (content s)(p := None)"
    and del_err: "del p s = (Inl e, s') \<Longrightarrow> q \<noteq> p \<Longrightarrow> content s' q = content s q"
begin

lemma put_other: "q \<noteq> p \<Longrightarrow> content (snd (put p f s)) q = content s q"
  by (cases "put p f s"; cases "fst (put p f s)") (auto dest: put_ok put_err)

lemma del_other: "q \<noteq> p \<Longrightarrow> content (snd (del p s)) q = content s q"
  by (cases "del p s"; cases "fst (del p s)") (auto dest: del_ok del_err)

end

locale spill_world = object_store content "st_put E" "st_get E" "st_delete E"
  for content :: "'s \<Rightarrow> string \<Rightarrow> 'f option" and E :: "('s, 'd, 'f) spill_env" +
  assumes ipc_roundtrip: "ipc_write E b = Inr f \<Longrightarrow> ipc_open E f = Inr (schema b, [Inr b])"
    and spill_path_inj: "spill_path E i = spill_path E j \<Longrightarrow> i = j"

locale reliable_world = spill_world content E
  for content :: "'s \<Rightarrow> string \<Rightarrow> 'f option" and E :: "('s, 'd, 'f) spill_env" +
  assumes put_succeeds: "\<exists>s'. st_put E p f s = (Inr (), s')"
    and get_succeeds: "content s p = Some f \<Longrightarrow> \<exists>g. st_get E p s = Inr g"
    and write_succeeds: "\<exists>f. ipc_write E b = Inr f"

section \<open>Abstraction and invariant\<close>

text \<open>What a \<open>get\<close> of an entry yields: a device batch is whatever copying it back gives.\<close>

definition entry_value :: "('s \<Rightarrow> string \<Rightarrow> 'f option) \<Rightarrow> ('s, 'd, 'f) spill_env \<Rightarrow> 's \<Rightarrow> 'd entry
    \<Rightarrow> (engine_error + batch) option" where
  "entry_value content E s e = (case e_payload e of
      PDevice d \<Rightarrow> Some (dev_to_host E d)
    | PHost b \<Rightarrow> Some (Inr b)
    | PDisk p \<Rightarrow> map_option (decode_batch E) (content s p))"

definition held :: "('s \<Rightarrow> string \<Rightarrow> 'f option) \<Rightarrow> ('s, 'd, 'f) spill_env \<Rightarrow> ('s, 'd) manager
    \<Rightarrow> nat \<Rightarrow> (engine_error + batch) option" where
  "held content E m i = Option.bind (DAList.lookup (entries m) i) (entry_value content E (m_store m))"

text \<open>A bound on the sizes a batch takes in the host and disk tiers.\<close>

definition batch_fits :: "('s, 'd, 'f) spill_env \<Rightarrow> nat \<Rightarrow> batch \<Rightarrow> bool" where
  "batch_fits E B b \<longleftrightarrow> batch_bytes E b \<le> B \<and> (\<forall>f. ipc_write E b = Inr f \<longrightarrow> min (file_len E f) u64_max \<le> B)"

definition entry_ok :: "('s \<Rightarrow> string \<Rightarrow> 'f option) \<Rightarrow> ('s, 'd, 'f) spill_env \<Rightarrow> nat \<Rightarrow> 's \<Rightarrow> nat \<Rightarrow> 'd entry \<Rightarrow> bool" where
  "entry_ok content E B s i e \<longleftrightarrow> e_bytes e \<le> B \<and> e_host_bytes e \<le> B \<and> (case e_payload e of
      PDevice d \<Rightarrow> e_tier e = Device_tier \<and> (\<forall>b. dev_to_host E d = Inr b \<longrightarrow> batch_fits E B b)
    | PHost b \<Rightarrow> e_tier e = Host_tier \<and> batch_fits E B b
    | PDisk p \<Rightarrow> e_tier e = Disk_tier \<and> p = spill_path E i
        \<and> (\<exists>b f. content s p = Some f \<and> ipc_write E b = Inr f \<and> batch_fits E B b))"

definition tier_sum :: "tier \<Rightarrow> (nat \<times> 'd entry) list \<Rightarrow> nat" where
  "tier_sum t es = sum_list (map (\<lambda>(_, e). e_bytes e) (filter (\<lambda>(_, e). e_tier e = t) es))"

abbreviation entry_list :: "('s, 'd) manager \<Rightarrow> (nat \<times> 'd entry) list" where
  "entry_list m \<equiv> DAList.impl_of (entries m)"

definition spill_ok :: "('s \<Rightarrow> string \<Rightarrow> 'f option) \<Rightarrow> ('s, 'd, 'f) spill_env \<Rightarrow> nat \<Rightarrow> ('s, 'd) manager \<Rightarrow> bool" where
  "spill_ok content E B m \<longleftrightarrow>
     (\<forall>i e. DAList.lookup (entries m) i = Some e \<longrightarrow>
        entry_ok content E B (m_store m) i e \<and> i < next_id m \<and> e_touch e \<le> clock m) \<and>
     inj_on (\<lambda>i. map_option e_touch (DAList.lookup (entries m) i)) {i. DAList.lookup (entries m) i \<noteq> None} \<and>
     length (used m) = 3 \<and> (\<forall>t. used m ! tier_idx t = tier_sum t (entry_list m)) \<and>
     length (entry_list m) * B \<le> u64_max"

lemma spill_ok_entry:
  "spill_ok content E B m \<Longrightarrow> DAList.lookup (entries m) i = Some e \<Longrightarrow>
     entry_ok content E B (m_store m) i e \<and> i < next_id m \<and> e_touch e \<le> clock m"
  by (simp add: spill_ok_def)

section \<open>Sums over the entries\<close>

lemma tier_sum_split: "tier_sum t (l @ (i, e) # r) = tier_sum t (l @ r) + (if e_tier e = t then e_bytes e else 0)"
  by (simp add: tier_sum_def)

lemma tier_idx_less [simp]: "tier_idx t < 3"
  by (cases t) simp_all

lemma tier_idx_eq [simp]: "tier_idx t = tier_idx t' \<longleftrightarrow> t = t'"
  by (cases t; cases t') simp_all

lemma tier_sum_le:
  "(\<forall>(i, e) \<in> set es. e_bytes e \<le> B) \<Longrightarrow> tier_sum t es \<le> length es * B"
  by (induction es) (auto simp: tier_sum_def)

lemma tier_sum_update:
  assumes "DAList.lookup al i = Some e"
  shows "tier_sum t (DAList.impl_of (DAList.update i e' al)) + (if e_tier e = t then e_bytes e else 0)
      = tier_sum t (DAList.impl_of al) + (if e_tier e' = t then e_bytes e' else 0)"
    and "length (DAList.impl_of (DAList.update i e' al)) = length (DAList.impl_of al)"
  using impl_update_split [OF assms, of e'] by (auto simp: tier_sum_split)

lemma tier_sum_insert:
  assumes "DAList.lookup al i = None"
  shows "tier_sum t (DAList.impl_of (DAList.update i e al)) = tier_sum t (DAList.impl_of al) + (if e_tier e = t then e_bytes e else 0)"
    and "length (DAList.impl_of (DAList.update i e al)) = Suc (length (DAList.impl_of al))"
proof -
  have "i \<notin> fst ` set (DAList.impl_of al)" using assms by (simp add: DAList.lookup_def map_of_eq_None_iff)
  then have "AList.update i e (DAList.impl_of al) = DAList.impl_of al @ [(i, e)]"
    by (rule update_fresh)
  then show "tier_sum t (DAList.impl_of (DAList.update i e al)) = tier_sum t (DAList.impl_of al) + (if e_tier e = t then e_bytes e else 0)"
    and "length (DAList.impl_of (DAList.update i e al)) = Suc (length (DAList.impl_of al))"
    by (simp_all add: impl_of_update tier_sum_def)
qed

section \<open>Moving an entry between tiers\<close>

lemma used_move:
  assumes "length u = 3" and "\<forall>t. u ! tier_idx t = tier_sum t (DAList.impl_of al)"
    and "DAList.lookup al i = Some e" and "e_tier e' \<noteq> e_tier e"
    and "tier_sum (e_tier e') (DAList.impl_of (DAList.update i e' al)) \<le> u64_max"
  shows "add_used (e_tier e') (e_bytes e') (sub_used (e_tier e) (e_bytes e) u) ! tier_idx t
    = tier_sum t (DAList.impl_of (DAList.update i e' al))"
proof -
  note upd = tier_sum_update(1) [OF assms(3), of _ e']
  have "u64_add (u ! tier_idx (e_tier e')) (e_bytes e') = tier_sum (e_tier e') (DAList.impl_of (DAList.update i e' al))"
    using upd [of "e_tier e'"] assms(2,4,5) by (simp add: u64_add_exact)
  moreover have "u ! tier_idx (e_tier e) - e_bytes e = tier_sum (e_tier e) (DAList.impl_of (DAList.update i e' al))"
    using upd [of "e_tier e"] assms(2,4) by simp
  moreover have "u ! tier_idx t = tier_sum t (DAList.impl_of (DAList.update i e' al))"
    if "t \<noteq> e_tier e" "t \<noteq> e_tier e'" using upd [of t] assms(2) that by simp
  ultimately show ?thesis using assms(1,4)
    by (auto simp: add_used_def sub_used_def u64_saturating_sub_def nth_list_update)
qed

lemma length_used_move [simp]: "length (add_used t n u) = length u" "length (sub_used t n u) = length u"
  by (simp_all add: add_used_def sub_used_def)

lemma touches_update:
  assumes "inj_on (\<lambda>j. map_option e_touch (DAList.lookup al j)) {j. DAList.lookup al j \<noteq> None}"
    and "DAList.lookup al i = Some e" and "e_touch e' = e_touch e"
  shows "inj_on (\<lambda>j. map_option e_touch (DAList.lookup (DAList.update i e' al) j))
    {j. DAList.lookup (DAList.update i e' al) j \<noteq> None}"
proof -
  have "(\<lambda>j. map_option e_touch (DAList.lookup (DAList.update i e' al) j)) = (\<lambda>j. map_option e_touch (DAList.lookup al j))"
    using assms(2,3) by (intro ext) (auto simp: lookup_update)
  moreover have "{j. DAList.lookup (DAList.update i e' al) j \<noteq> None} = {j. DAList.lookup al j \<noteq> None}"
    using assms(2) by (auto simp: lookup_update)
  ultimately show ?thesis using assms(1) by simp
qed

context spill_world
begin

lemma entry_ok_store:
  assumes "\<forall>q. q \<noteq> spill_path E i \<longrightarrow> content s' q = content s q" and "j \<noteq> i" and "entry_ok content E B s j e"
  shows "entry_ok content E B s' j e \<and> entry_value content E s' e = entry_value content E s e"
proof (cases "e_payload e")
  case (PDisk p)
  then have "p \<noteq> spill_path E i" using assms(2,3) spill_path_inj by (auto simp: entry_ok_def)
  then show ?thesis using assms(1,3) PDisk by (auto simp: entry_ok_def entry_value_def)
qed (use assms(3) in \<open>auto simp: entry_ok_def entry_value_def\<close>)

text \<open>One entry changes tier; the files of the others are untouched.\<close>

lemma move_entry:
  assumes ok: "spill_ok content E B m" and e: "DAList.lookup (entries m) i = Some e"
    and files: "\<forall>q. q \<noteq> spill_path E i \<longrightarrow> content (m_store m') q = content (m_store m) q"
    and e': "entry_ok content E B (m_store m') i e'" "e_touch e' = e_touch e" "e_tier e' \<noteq> e_tier e"
      "entry_value content E (m_store m') e' = entry_value content E (m_store m) e"
    and m': "entries m' = DAList.update i e' (entries m)" "next_id m' = next_id m" "clock m' = clock m"
      "used m' = add_used (e_tier e') (e_bytes e') (sub_used (e_tier e) (e_bytes e) (used m))"
  shows "spill_ok content E B m'" and "held content E m' = held content E m"
proof -
  have other: "entry_ok content E B (m_store m') j x \<and> entry_value content E (m_store m') x = entry_value content E (m_store m) x"
    if "DAList.lookup (entries m) j = Some x" "j \<noteq> i" for j x
    using entry_ok_store [OF files that(2)] ok that(1) by (auto simp: spill_ok_def)
  have all: "entry_ok content E B (m_store m') j x \<and> j < next_id m' \<and> e_touch x \<le> clock m'"
    if "DAList.lookup (entries m') j = Some x" for j x
    using that other [of j x] ok e e'(1,2) m'(1-3) by (auto simp: lookup_update spill_ok_def split: if_splits)
  have len: "length (entry_list m') = length (entry_list m)" using tier_sum_update(2) [OF e] m'(1) by simp
  have "tier_sum t (entry_list m') \<le> u64_max" for t
  proof -
    have "\<forall>(j, x) \<in> set (entry_list m'). e_bytes x \<le> B" using all by (auto simp: entry_ok_def lookup_impl)
    then show ?thesis using tier_sum_le [of "entry_list m'" B t] len ok by (simp add: spill_ok_def)
  qed
  then have "used m' ! tier_idx t = tier_sum t (entry_list m')" for t
    using used_move [of "used m" "entries m" i e e' t] ok e e'(3) m'(1,4) by (simp add: spill_ok_def)
  then show "spill_ok content E B m'" unfolding spill_ok_def
    using all len ok touches_update [OF _ e e'(2)] m'(1,4) by (simp add: spill_ok_def)
  show "held content E m' = held content E m"
    using other e e'(4) m'(1) by (intro ext) (auto simp: held_def lookup_update split: bind_splits)
qed

lemma demote_device_ok:
  assumes "spill_ok content E B m" and "DAList.lookup (entries m) i = Some e" and "e_payload e = PDevice d"
    and "dev_to_host E d = Inr b"
  shows "spill_ok content E B (demote_device E i e b m)" and "held content E (demote_device E i e b m) = held content E m"
proof -
  let ?e = "e\<lparr>e_tier := Host_tier, e_bytes := batch_bytes E b, e_host_bytes := batch_bytes E b, e_payload := PHost b\<rparr>"
  have ok: "entry_ok content E B (m_store m) i e" using assms(1,2) by (simp add: spill_ok_def)
  have "entry_ok content E B (m_store m) i ?e" "e_tier e = Device_tier"
    using ok assms(3,4) by (auto simp: entry_ok_def batch_fits_def)
  then show "spill_ok content E B (demote_device E i e b m)" "held content E (demote_device E i e b m) = held content E m"
    using move_entry [OF assms(1,2), of "demote_device E i e b m" ?e] assms(3,4)
    by (simp_all add: demote_device_def Let_def entry_value_def)
qed

lemma decode_written:
  "ipc_write E b = Inr f \<Longrightarrow> decode_batch E f = Inr b"
  by (simp add: decode_batch_def ipc_roundtrip)

lemma demote_host_ok:
  assumes "spill_ok content E B m" and "DAList.lookup (entries m) i = Some e" and "e_payload e = PHost b"
    and "write_spill E (spill_path E i) b (m_store m) = (Inr db, s)"
  defines "m' \<equiv> demote_host i e (spill_path E i) db (m\<lparr>m_store := s\<rparr>)"
  shows "spill_ok content E B m'" and "held content E m' = held content E m"
proof -
  let ?e = "e\<lparr>e_tier := Disk_tier, e_bytes := db, e_payload := PDisk (spill_path E i)\<rparr>"
  obtain f where f: "ipc_write E b = Inr f" "db = min (file_len E f) u64_max" "st_put E (spill_path E i) f (m_store m) = (Inr (), s)"
    using assms(4) by (auto simp: write_spill_def encode_batch_def split: sum.splits prod.splits)
  have c: "content s = (content (m_store m))(spill_path E i \<mapsto> f)" using put_ok [OF f(3)] .
  have ok: "entry_ok content E B (m_store m) i e" using assms(1,2) by (simp add: spill_ok_def)
  have "entry_ok content E B s i ?e" "e_tier e = Host_tier"
    using ok assms(3) f(1,2) c by (auto simp: entry_ok_def batch_fits_def)
  then show "spill_ok content E B m'" "held content E m' = held content E m"
    using move_entry [OF assms(1,2), of m' ?e] assms(3) f(1) c
    by (simp_all add: m'_def demote_host_def entry_value_def decode_written)
qed

lemma write_failed:
  assumes "write_spill E (spill_path E i) b s = (Inl err, s')" and "q \<noteq> spill_path E i"
  shows "content s' q = content s q"
  using assms by (auto simp: write_spill_def split: sum.splits prod.splits dest: put_err)

text \<open>A failed write touches no file of an entry on disk, since the victim is still in the host tier.\<close>

lemma failed_write_ok:
  assumes "spill_ok content E B m" and "DAList.lookup (entries m) i = Some e" and "e_payload e = PHost b"
    and "\<forall>q. q \<noteq> spill_path E i \<longrightarrow> content s' q = content (m_store m) q"
  shows "spill_ok content E B (m\<lparr>m_store := s'\<rparr>)" and "held content E (m\<lparr>m_store := s'\<rparr>) = held content E m"
proof -
  have *: "entry_ok content E B s' j x \<and> entry_value content E s' x = entry_value content E (m_store m) x"
    if "DAList.lookup (entries m) j = Some x" for j x
  proof (cases "j = i")
    case True
    then show ?thesis using spill_ok_entry [OF assms(1,2)] that assms(2,3) by (auto simp: entry_ok_def entry_value_def)
  next
    case False
    then show ?thesis using entry_ok_store [OF assms(4)] spill_ok_entry [OF assms(1) that] by blast
  qed
  show "spill_ok content E B (m\<lparr>m_store := s'\<rparr>)" using assms(1) * by (auto simp: spill_ok_def)
  show "held content E (m\<lparr>m_store := s'\<rparr>) = held content E m"
    using * by (intro ext) (auto simp: held_def split: bind_splits)
qed

text \<open>The eviction loops keep the invariant and the contents, and end within the budget.\<close>

lemma no_candidate:
  assumes "spill_ok content E B m" and "coldest t m = None"
  shows "used m ! tier_idx t = 0"
proof -
  have "filter (\<lambda>(_, e). e_tier e = t) (entry_list m) = []"
    using assms(2) by (auto simp: coldest_def coldest_of_None filter_empty_conv)
  then show ?thesis using assms(1) by (simp add: spill_ok_def tier_sum_def)
qed

lemma enforce_device_ok:
  assumes "spill_ok content E B m" and "enforce_device E m = (r, m')"
  shows "spill_ok content E B m' \<and> held content E m' = held content E m \<and> next_id m' = next_id m
    \<and> clock m' = clock m \<and> m_store m' = m_store m
    \<and> (r = Inr () \<longrightarrow> used m' ! tier_idx Device_tier \<le> budget_device (budget E))"
  using assms
proof (induction "tier_count Device_tier m" arbitrary: m rule: less_induct)
  case less
  show ?case
  proof (cases "used m ! tier_idx Device_tier > budget_device (budget E)")
    case over: True
    show ?thesis
    proof (cases "coldest Device_tier m")
      case None
      then show ?thesis using less(2,3) no_candidate [OF less(2) None] over by (simp add: enforce_device.simps)
    next
      case (Some i)
      obtain e where e: "DAList.lookup (entries m) i = Some e" "e_tier e = Device_tier"
        using coldest_lookup [OF Some] by blast
      then obtain d where d: "e_payload e = PDevice d"
        using spill_ok_entry [OF less(2) e(1)] by (auto simp: entry_ok_def split: payload.splits)
      show ?thesis
      proof (cases "dev_to_host E d")
        case (Inl err)
        then show ?thesis using less(2,3) over Some e(1) d by (auto simp: enforce_device.simps)
      next
        case (Inr b)
        let ?m = "demote_device E i e b m"
        have "tier_count Device_tier ?m < tier_count Device_tier m"
          using e by (intro demotion_counts [OF e(1)]) (auto simp: demote_device_def Let_def)
        moreover have "enforce_device E ?m = (r, m')"
          using less(3) over Some e(1) d Inr by (simp add: enforce_device.simps [of E m])
        moreover note demote_device_ok [OF less(2) e(1) d Inr]
        ultimately show ?thesis using less(1) [of ?m] by (auto simp: demote_device_def Let_def)
      qed
    qed
  next
    case False
    then show ?thesis using less(2,3) by (simp add: enforce_device.simps not_less)
  qed
qed

lemma used_demote_host: "used (demote_host i e p db m) ! 0 = used m ! 0"
  by (simp add: demote_host_def add_used_def sub_used_def)

lemma enforce_host_ok:
  assumes "spill_ok content E B m" and "enforce_host E m = (r, m')"
  shows "spill_ok content E B m' \<and> held content E m' = held content E m \<and> next_id m' = next_id m
    \<and> clock m' = clock m \<and> used m' ! tier_idx Device_tier = used m ! tier_idx Device_tier
    \<and> (r = Inr () \<longrightarrow> used m' ! tier_idx Host_tier \<le> budget_host (budget E))"
  using assms
proof (induction "tier_count Host_tier m" arbitrary: m rule: less_induct)
  case less
  show ?case
  proof (cases "used m ! tier_idx Host_tier > budget_host (budget E)")
    case over: True
    show ?thesis
    proof (cases "coldest Host_tier m")
      case None
      then show ?thesis using less(2,3) no_candidate [OF less(2) None] over by (simp add: enforce_host.simps)
    next
      case (Some i)
      obtain e where e: "DAList.lookup (entries m) i = Some e" "e_tier e = Host_tier"
        using coldest_lookup [OF Some] by blast
      then obtain b where b: "e_payload e = PHost b"
        using spill_ok_entry [OF less(2) e(1)] by (auto simp: entry_ok_def split: payload.splits)
      obtain w s where w: "write_spill E (spill_path E i) b (m_store m) = (w, s)" by fastforce
      show ?thesis
      proof (cases w)
        case (Inl err)
        have "\<forall>q. q \<noteq> spill_path E i \<longrightarrow> content s q = content (m_store m) q"
          using write_failed w Inl by blast
        then show ?thesis
          using less(3) over Some e(1) b w Inl failed_write_ok [OF less(2) e(1) b, of s]
          by (auto simp: enforce_host.simps)
      next
        case (Inr db)
        let ?m = "demote_host i e (spill_path E i) db (m\<lparr>m_store := s\<rparr>)"
        have "tier_count Host_tier ?m < tier_count Host_tier m"
          using e by (intro demotion_counts [OF e(1)]) (auto simp: demote_host_def)
        moreover have "enforce_host E ?m = (r, m')"
          using less(3) over Some e(1) b w Inr by (simp add: enforce_host.simps [of E m])
        moreover note demote_host_ok [OF less(2) e(1) b w [unfolded Inr]]
        moreover have "next_id ?m = next_id m" "clock ?m = clock m" by (simp_all add: demote_host_def)
        ultimately show ?thesis using less(1) [of ?m] by (simp add: used_demote_host)
      qed
    qed
  next
    case False
    then show ?thesis using less(2,3) by (simp add: enforce_host.simps not_less)
  qed
qed

end

section \<open>Operations\<close>

text \<open>A new entry under the next identifier.\<close>

lemma insert_entry:
  assumes ok: "spill_ok content E B m"
    and m': "entries m' = DAList.update (next_id m) e (entries m)" "next_id m' = Suc (next_id m)"
      "clock m' = Suc (clock m)" "m_store m' = m_store m" "used m' = add_used (e_tier e) (e_bytes e) (used m)"
    and e: "entry_ok content E B (m_store m) (next_id m) e" "e_touch e = Suc (clock m)"
    and room: "Suc (length (entry_list m)) * B \<le> u64_max"
  shows "spill_ok content E B m'"
    and "held content E m' = (held content E m)(next_id m := entry_value content E (m_store m) e)"
    and "DAList.lookup (entries m) (next_id m) = None"
proof -
  show fresh: "DAList.lookup (entries m) (next_id m) = None"
    using spill_ok_entry [OF ok, of "next_id m"] by (cases "DAList.lookup (entries m) (next_id m)") auto
  note sum = tier_sum_insert(1) [OF fresh, of _ e] and len_insert = tier_sum_insert(2) [OF fresh, of e]
  have all: "entry_ok content E B (m_store m') j x \<and> j < next_id m' \<and> e_touch x \<le> clock m'"
    if "DAList.lookup (entries m') j = Some x" for j x
    using that spill_ok_entry [OF ok, of j x] e m'(1-4) by (auto simp: lookup_update split: if_splits)
  have len: "length (entry_list m') = Suc (length (entry_list m))" using len_insert m'(1) by simp
  have "\<forall>(j, x) \<in> set (entry_list m'). e_bytes x \<le> B" using all by (auto simp: entry_ok_def lookup_impl)
  then have small: "tier_sum t (entry_list m') \<le> u64_max" for t
    using tier_sum_le [of "entry_list m'" B t] len room by simp
  have used: "used m' ! tier_idx t = tier_sum t (entry_list m')" for t
    using ok m'(1,5) sum [of t] small [of t]
    by (cases "t = e_tier e") (auto simp: spill_ok_def add_used_def u64_add_exact nth_list_update)
  have "inj_on (\<lambda>j. map_option e_touch (DAList.lookup (entries m') j)) {j. DAList.lookup (entries m') j \<noteq> None}"
    unfolding inj_on_def
  proof (intro ballI impI)
    fix j k assume jk: "j \<in> {j. DAList.lookup (entries m') j \<noteq> None}" "k \<in> {j. DAList.lookup (entries m') j \<noteq> None}"
      "map_option e_touch (DAList.lookup (entries m') j) = map_option e_touch (DAList.lookup (entries m') k)"
    have old: "e_touch x \<le> clock m" if "DAList.lookup (entries m) l = Some x" for l x
      using spill_ok_entry [OF ok that] by simp
    have "inj_on (\<lambda>i. map_option e_touch (DAList.lookup (entries m) i)) {i. DAList.lookup (entries m) i \<noteq> None}"
      using ok by (simp add: spill_ok_def)
    then show "j = k" using jk old e(2) m'(1) unfolding inj_on_def
      by (auto simp: lookup_update split: if_splits) (metis Suc_n_not_le_n)+
  qed
  then show "spill_ok content E B m'" unfolding spill_ok_def
    using all used len room ok m'(5) by (simp add: spill_ok_def)
  show "held content E m' = (held content E m)(next_id m := entry_value content E (m_store m) e)"
    using m'(1,4) by (intro ext) (auto simp: held_def lookup_update)
qed

lemma publish_simps [simp]:
  "entries (publish m) = entries m" "used (publish m) = used m" "next_id (publish m) = next_id m"
  "clock (publish m) = clock m" "m_store (publish m) = m_store m"
  by (simp_all add: publish_def)

lemma publish_ok [simp]:
  "spill_ok content E B (publish m) = spill_ok content E B m" "held content E (publish m) = held content E m"
  by (simp_all add: spill_ok_def held_def fun_eq_iff)

text \<open>What holds after an operation that succeeded: counters within budget, gauges showing them.\<close>

definition within_budget :: "('s, 'd, 'f) spill_env \<Rightarrow> ('s, 'd) manager \<Rightarrow> bool" where
  "within_budget E m \<longleftrightarrow> used m ! tier_idx Device_tier \<le> budget_device (budget E) \<and>
     used m ! tier_idx Host_tier \<le> budget_host (budget E)"

definition room :: "('s, 'd) manager \<Rightarrow> bool" where
  "room m \<longleftrightarrow> next_id m < u64_max \<and> clock m < u64_max"

context spill_world
begin

lemma insert_host_ok:
  assumes "spill_ok content E B m" and "room m" and "batch_fits E B b"
    and "Suc (length (entry_list m)) * B \<le> u64_max" and "insert_host E b m = (r, m')"
  shows "spill_ok content E B m' \<and> held content E m' = (held content E m)(next_id m \<mapsto> Inr b)
    \<and> next_id m' = Suc (next_id m) \<and> DAList.lookup (entries m) (next_id m) = None
    \<and> (\<forall>i. r = Inr i \<longrightarrow> i = next_id m \<and> (within_budget E m \<longrightarrow> within_budget E m'))"
proof -
  let ?e = "\<lparr>e_tier = Host_tier, e_bytes = batch_bytes E b, e_host_bytes = batch_bytes E b, e_touch = Suc (clock m),
      e_schema = schema b, e_payload = PHost b\<rparr>"
  let ?m = "m\<lparr>next_id := Suc (next_id m), clock := Suc (clock m), entries := DAList.update (next_id m) ?e (entries m),
      used := add_used Host_tier (batch_bytes E b) (used m)\<rparr>"
  have add: "u64_add (next_id m) 1 = Suc (next_id m)" "u64_add (clock m) 1 = Suc (clock m)"
    using assms(2) by (simp_all add: room_def u64_add_exact)
  have "entry_ok content E B (m_store m) (next_id m) ?e" using assms(3) by (simp add: entry_ok_def batch_fits_def)
  from insert_entry [OF assms(1) _ _ _ _ _ this _ assms(4), of ?m]
  have ins: "spill_ok content E B ?m" "held content E ?m = (held content E m)(next_id m \<mapsto> Inr b)"
      "DAList.lookup (entries m) (next_id m) = None"
    by (simp_all add: entry_value_def)
  obtain q m1 where q: "enforce_host E ?m = (q, m1)" by fastforce
  note enf = enforce_host_ok [OF ins(1) q]
  have dev: "used ?m ! tier_idx Device_tier = used m ! tier_idx Device_tier" by (simp add: add_used_def)
  have "(r, m') = (case q of Inl err \<Rightarrow> (Inl err, m1) | Inr _ \<Rightarrow> (Inr (next_id m), publish m1))"
    using assms(5) q add by (simp add: insert_host_def tick_def put_entry_def Let_def split: sum.splits)
  then show ?thesis using enf ins(2,3) dev by (cases q) (auto simp: within_budget_def)
qed

lemma insert_device_ok:
  assumes "spill_ok content E B m" and "room m" and "dev_bytes E d \<le> B"
    and "\<forall>b. dev_to_host E d = Inr b \<longrightarrow> batch_fits E B b"
    and "Suc (length (entry_list m)) * B \<le> u64_max" and "insert_device E d fs m = (r, m')"
  shows "spill_ok content E B m' \<and> held content E m' = (held content E m)(next_id m \<mapsto> dev_to_host E d)
    \<and> next_id m' = Suc (next_id m) \<and> DAList.lookup (entries m) (next_id m) = None
    \<and> (\<forall>i. r = Inr i \<longrightarrow> i = next_id m \<and> within_budget E m')"
proof -
  let ?e = "\<lparr>e_tier = Device_tier, e_bytes = dev_bytes E d, e_host_bytes = 0, e_touch = Suc (clock m),
      e_schema = fs, e_payload = PDevice d\<rparr>"
  let ?m = "m\<lparr>next_id := Suc (next_id m), clock := Suc (clock m), entries := DAList.update (next_id m) ?e (entries m),
      used := add_used Device_tier (dev_bytes E d) (used m)\<rparr>"
  have add: "u64_add (next_id m) 1 = Suc (next_id m)" "u64_add (clock m) 1 = Suc (clock m)"
    using assms(2) by (simp_all add: room_def u64_add_exact)
  have "entry_ok content E B (m_store m) (next_id m) ?e" using assms(3,4) by (simp add: entry_ok_def)
  from insert_entry [OF assms(1) _ _ _ _ _ this _ assms(5), of ?m]
  have ins: "spill_ok content E B ?m" "held content E ?m = (held content E m)(next_id m \<mapsto> dev_to_host E d)"
      "DAList.lookup (entries m) (next_id m) = None"
    by (simp_all add: entry_value_def)
  obtain q m1 where q: "enforce_device E ?m = (q, m1)" by fastforce
  note dev = enforce_device_ok [OF ins(1) q]
  obtain q2 m2 where q2: "enforce_host E m1 = (q2, m2)" by fastforce
  note host = enforce_host_ok [OF conjunct1 [OF dev] q2]
  have "(r, m') = (case q of Inl err \<Rightarrow> (Inl err, m1) | Inr _ \<Rightarrow>
      (case q2 of Inl err \<Rightarrow> (Inl err, m2) | Inr _ \<Rightarrow> (Inr (next_id m), publish m2)))"
    using assms(6) q q2 add by (simp add: insert_device_def tick_def put_entry_def Let_def split: sum.splits)
  then show ?thesis using dev host ins(2,3) by (cases q; cases q2) (auto simp: within_budget_def)
qed

text \<open>Reading a batch touches its entry.\<close>

lemma touch_ok:
  assumes "spill_ok content E B m" and "DAList.lookup (entries m) i = Some e"
  defines "m' \<equiv> m\<lparr>clock := Suc (clock m), entries := DAList.update i (e\<lparr>e_touch := Suc (clock m)\<rparr>) (entries m)\<rparr>"
  shows "spill_ok content E B m'" and "held content E m' = held content E m"
proof -
  let ?e = "e\<lparr>e_touch := Suc (clock m)\<rparr>"
  have same: "entry_ok content E B (m_store m) i ?e = entry_ok content E B (m_store m) i e"
    "entry_value content E (m_store m) ?e = entry_value content E (m_store m) e"
    by (simp_all add: entry_ok_def entry_value_def cong: payload.case_cong)
  have sums: "tier_sum t (entry_list m') = tier_sum t (entry_list m)" "length (entry_list m') = length (entry_list m)" for t
    using tier_sum_update(1) [OF assms(2), of t ?e] tier_sum_update(2) [OF assms(2), of ?e]
    by (auto simp: m'_def cong: if_cong)
  have all: "entry_ok content E B (m_store m') j x \<and> j < next_id m' \<and> e_touch x \<le> clock m'"
    if "DAList.lookup (entries m') j = Some x" for j x
    using that spill_ok_entry [OF assms(1), of j x] spill_ok_entry [OF assms(1,2)] same(1)
    by (auto simp: m'_def lookup_update split: if_splits)
  have inj: "inj_on (\<lambda>j. map_option e_touch (DAList.lookup (entries m) j)) {j. DAList.lookup (entries m) j \<noteq> None}"
    using assms(1) by (simp add: spill_ok_def)
  have "inj_on (\<lambda>j. map_option e_touch (DAList.lookup (entries m') j)) {j. DAList.lookup (entries m') j \<noteq> None}"
    unfolding inj_on_def
  proof (intro ballI impI)
    fix j k assume jk: "j \<in> {j. DAList.lookup (entries m') j \<noteq> None}" "k \<in> {j. DAList.lookup (entries m') j \<noteq> None}"
      "map_option e_touch (DAList.lookup (entries m') j) = map_option e_touch (DAList.lookup (entries m') k)"
    have old: "e_touch x \<le> clock m" if "DAList.lookup (entries m) l = Some x" for l x
      using spill_ok_entry [OF assms(1) that] by simp
    then show "j = k" using jk inj unfolding inj_on_def m'_def
      by (auto simp: lookup_update split: if_splits) (metis Suc_n_not_le_n)+
  qed
  then show "spill_ok content E B m'" unfolding spill_ok_def
    using all sums assms(1) by (simp add: spill_ok_def) (simp add: m'_def)
  show "held content E m' = held content E m"
    using assms(2) same(2) by (intro ext) (auto simp: held_def m'_def lookup_update)
qed

lemma read_spill_held:
  assumes "spill_ok content E B m" and "DAList.lookup (entries m) i = Some e" and "e_payload e = PDisk p"
    and "read_spill E p (m_store m) = Inr b"
  shows "entry_value content E (m_store m) e = Some (Inr b)" and "batch_fits E B b"
proof -
  obtain f where f: "st_get E p (m_store m) = Inr f" "decode_batch E f = Inr b"
    using assms(4) by (auto simp: read_spill_def result_simps)
  have c: "content (m_store m) p = Some f" using get_ok [OF f(1)] .
  then show "entry_value content E (m_store m) e = Some (Inr b)" using f(2) assms(3) by (simp add: entry_value_def)
  obtain b0 where "ipc_write E b0 = Inr f" "batch_fits E B b0"
    using spill_ok_entry [OF assms(1,2)] assms(3) c by (auto simp: entry_ok_def)
  then show "batch_fits E B b" using decode_written f(2) by simp
qed

lemma promote_store [simp]: "m_store (promote i e b hb m) = m_store m"
  by (simp add: promote_def)

lemma promote_ok:
  assumes ok: "spill_ok content E B m" and e: "DAList.lookup (entries m) i = Some e" "e_payload e = PDisk p"
    and b: "read_spill E p (m_store m) = Inr b" and hb: "hb = (if e_host_bytes e > 0 then e_host_bytes e else batch_bytes E b)"
  defines "m' \<equiv> (promote i e b hb m)\<lparr>m_store := snd (st_delete E p (m_store m))\<rparr>"
  shows "spill_ok content E B m'" and "held content E m' = held content E m"
proof -
  let ?e = "e\<lparr>e_tier := Host_tier, e_bytes := hb, e_payload := PHost b\<rparr>"
  note rd = read_spill_held [OF ok e b]
  have ent: "e_tier e = Disk_tier" "p = spill_path E i" "e_host_bytes e \<le> B"
    using spill_ok_entry [OF ok e(1)] e(2) by (auto simp: entry_ok_def)
  have "entry_ok content E B (m_store m') i ?e"
    using spill_ok_entry [OF ok e(1)] rd(2) hb ent(3) by (auto simp: entry_ok_def batch_fits_def)
  then show "spill_ok content E B m'" "held content E m' = held content E m"
    using move_entry [OF ok e(1), of m' ?e] rd(1) ent(1,2) del_other
    by (simp_all add: m'_def promote_def entry_value_def)
qed

lemma get_batch_ok:
  assumes "spill_ok content E B m" and "room m" and "get_batch E i m = (r, m')"
  shows "spill_ok content E B m' \<and> held content E m' = held content E m \<and> next_id m' = next_id m
    \<and> (\<forall>b. r = Inr b \<longrightarrow> held content E m i = Some (Inr b) \<and> (within_budget E m \<longrightarrow> within_budget E m'))"
proof -
  have add: "u64_add (clock m) 1 = Suc (clock m)" using assms(2) by (simp add: room_def u64_add_exact)
  show ?thesis
  proof (cases "DAList.lookup (entries m) i")
    case None
    then show ?thesis using assms(1,3) add
      by (auto simp: get_batch_def tick_def spill_ok_def held_def fun_eq_iff le_SucI)
  next
    case (Some e0)
    let ?e = "e0\<lparr>e_touch := Suc (clock m)\<rparr>"
    let ?m = "m\<lparr>clock := Suc (clock m), entries := DAList.update i ?e (entries m)\<rparr>"
    note t = touch_ok [OF assms(1) Some]
    have look: "DAList.lookup (entries ?m) i = Some ?e" by simp
    show ?thesis
    proof (cases "e_payload e0")
      case (PDevice d)
      then show ?thesis using assms(3) add Some t by (auto simp: get_batch_def tick_def held_def entry_value_def within_budget_def)
    next
      case (PHost b)
      then show ?thesis using assms(3) add Some t by (auto simp: get_batch_def tick_def held_def entry_value_def within_budget_def)
    next
      case (PDisk p)
      show ?thesis
      proof (cases "read_spill E p (m_store m)")
        case (Inl err)
        then show ?thesis using assms(3) add Some t PDisk by (auto simp: get_batch_def tick_def)
      next
        case (Inr b)
        let ?hb = "if e_host_bytes ?e > 0 then e_host_bytes ?e else batch_bytes E b"
        let ?p = "(promote i ?e b ?hb ?m)\<lparr>m_store := snd (st_delete E p (m_store ?m))\<rparr>"
        have rd: "read_spill E p (m_store ?m) = Inr b" and pay: "e_payload ?e = PDisk p" using Inr PDisk by simp_all
        note pr = promote_ok [OF t(1) look pay rd refl]
        obtain q m1 where q: "enforce_host E ?p = (q, m1)" by fastforce
        note enf = enforce_host_ok [OF pr(1) q]
        have dev: "used ?p ! tier_idx Device_tier = used m ! tier_idx Device_tier"
          by (simp add: promote_def add_used_def sub_used_def)
        have "held content E m i = Some (Inr b)"
          using read_spill_held(1) [OF assms(1) Some PDisk Inr] Some by (simp add: held_def)
        moreover have "(r, m') = (case q of Inl err \<Rightarrow> (Inl err, m1) | Inr _ \<Rightarrow> (Inr b, publish m1))"
          using assms(3) add Some PDisk Inr q by (simp add: get_batch_def tick_def Let_def cong: if_cong split: sum.splits)
        moreover have "next_id ?p = next_id m" by (simp add: promote_def)
        ultimately show ?thesis using enf pr(2) t(2) dev by (cases q) (auto simp: within_budget_def)
      qed
    qed
  qed
qed

lemma delete_split: "i \<notin> fst ` set l \<Longrightarrow> i \<notin> fst ` set r \<Longrightarrow> AList.delete i (l @ (i, e) # r) = l @ r"
  by (induction l) (auto simp: AList.delete_idem)

lemma delete_sums:
  assumes "DAList.lookup al i = Some e"
  shows "tier_sum t (DAList.impl_of (DAList.delete i al)) + (if e_tier e = t then e_bytes e else 0) = tier_sum t (DAList.impl_of al)"
    and "length (DAList.impl_of (DAList.delete i al)) \<le> length (DAList.impl_of al)"
proof -
  have impl: "DAList.impl_of (DAList.delete i al) = AList.delete i (DAList.impl_of al)" by transfer simp
  obtain l r where lr: "DAList.impl_of al = l @ (i, e) # r" using impl_update_split [OF assms] by blast
  then have "i \<notin> fst ` set l" "i \<notin> fst ` set r" using impl_of_distinct [of al] by auto
  then have "AList.delete i (DAList.impl_of al) = l @ r" unfolding lr by (rule delete_split)
  then show "tier_sum t (DAList.impl_of (DAList.delete i al)) + (if e_tier e = t then e_bytes e else 0) = tier_sum t (DAList.impl_of al)"
    and "length (DAList.impl_of (DAList.delete i al)) \<le> length (DAList.impl_of al)"
    using impl lr by (simp_all add: tier_sum_split)
qed

text \<open>Forgetting an entry, with any change to its own file.\<close>

lemma forget_ok:
  assumes ok: "spill_ok content E B m" and e: "DAList.lookup (entries m) i = Some e"
    and files: "\<forall>q. q \<noteq> spill_path E i \<longrightarrow> content s' q = content (m_store m) q"
  defines "m' \<equiv> m\<lparr>entries := DAList.delete i (entries m), used := sub_used (e_tier e) (e_bytes e) (used m), m_store := s'\<rparr>"
  shows "spill_ok content E B m'" and "held content E m' = (held content E m)(i := None)"
    and "within_budget E m \<Longrightarrow> within_budget E m'"
proof -
  have other: "entry_ok content E B s' j x \<and> entry_value content E s' x = entry_value content E (m_store m) x"
    if "DAList.lookup (entries m) j = Some x" "j \<noteq> i" for j x
    using entry_ok_store [OF files that(2)] spill_ok_entry [OF ok that(1)] by blast
  have "entry_ok content E B (m_store m') j x \<and> j < next_id m' \<and> e_touch x \<le> clock m'"
    if "DAList.lookup (entries m') j = Some x" for j x
    using that other spill_ok_entry [OF ok] by (auto simp: m'_def split: if_splits)
  moreover have "used m' ! tier_idx t = tier_sum t (entry_list m')" for t
    using delete_sums(1) [OF e, of t] ok
    by (auto simp: m'_def spill_ok_def sub_used_def u64_saturating_sub_def nth_list_update split: if_splits)
  moreover have "length (entry_list m') * B \<le> u64_max"
  proof -
    have "length (entry_list m') * B \<le> length (entry_list m) * B"
      using delete_sums(2) [OF e] by (intro mult_le_mono1) (simp add: m'_def)
    also have "\<dots> \<le> u64_max" using ok by (simp add: spill_ok_def)
    finally show ?thesis .
  qed
  moreover have "inj_on (\<lambda>j. map_option e_touch (DAList.lookup (entries m') j)) {j. DAList.lookup (entries m') j \<noteq> None}"
    using ok by (auto simp: m'_def spill_ok_def inj_on_def)
  ultimately show "spill_ok content E B m'" using ok unfolding spill_ok_def [of _ _ _ m'] by (simp add: m'_def spill_ok_def)
  show "held content E m' = (held content E m)(i := None)"
    using other by (intro ext) (auto simp: held_def m'_def split: bind_splits)
  show "within_budget E m \<Longrightarrow> within_budget E m'"
    using ok by (cases "e_tier e") (auto simp: m'_def within_budget_def sub_used_def u64_saturating_sub_def spill_ok_def)
qed

lemma remove_ok:
  assumes "spill_ok content E B m" and "remove E i m = (r, m')"
  shows "spill_ok content E B m' \<and> held content E m' = (held content E m)(i := None) \<and> next_id m' = next_id m
    \<and> (\<forall>x. r = Inr x \<longrightarrow> (x \<longleftrightarrow> tier_of i m \<noteq> None) \<and> (within_budget E m \<longrightarrow> within_budget E m'))"
proof (cases "DAList.lookup (entries m) i")
  case None
  then show ?thesis using assms by (auto simp: remove_def tier_of_def held_def fun_eq_iff)
next
  case (Some e)
  note f = forget_ok [OF assms(1) Some]
  let ?m = "m\<lparr>entries := DAList.delete i (entries m), used := sub_used (e_tier e) (e_bytes e) (used m)\<rparr>"
  have same: "spill_ok content E B ?m" "held content E ?m = (held content E m)(i := None)"
      "within_budget E m \<Longrightarrow> within_budget E ?m"
    using f [of "m_store m"] by simp_all
  show ?thesis
  proof (cases "e_payload e")
    case (PDisk p)
    then have p: "p = spill_path E i" using spill_ok_entry [OF assms(1) Some] by (simp add: entry_ok_def)
    obtain q s where q: "st_delete E p (m_store m) = (q, s)" by fastforce
    then have files: "\<forall>x. x \<noteq> spill_path E i \<longrightarrow> content s x = content (m_store m) x"
      using del_other [of _ p "m_store m"] p by auto
    define m1 where "m1 = ?m\<lparr>m_store := s\<rparr>"
    have m1: "spill_ok content E B m1" "held content E m1 = (held content E m)(i := None)"
        "within_budget E m \<Longrightarrow> within_budget E m1" "next_id m1 = next_id m"
      using f [OF files] by (simp_all add: m1_def)
    have "(m' = m1 \<and> (\<exists>err. r = Inl err)) \<or> (m' = publish m1 \<and> r = Inr True)"
      using assms(2) Some PDisk q
      by (cases q; cases "projl q") (auto simp: remove_def Let_def m1_def)
    then show ?thesis using m1 Some by (elim disjE conjE exE) (simp_all add: tier_of_def within_budget_def)
  next
    case (PHost b)
    have "m' = publish ?m" "r = Inr True" using assms(2) Some PHost by (auto simp: remove_def Let_def)
    then show ?thesis using same Some by (auto simp: tier_of_def within_budget_def)
  next
    case (PDevice d)
    have "m' = publish ?m" "r = Inr True" using assms(2) Some PDevice by (auto simp: remove_def Let_def)
    then show ?thesis using same Some by (auto simp: tier_of_def within_budget_def)
  qed
qed

end

section \<open>Sequences of calls\<close>

datatype 'd call = InsertHost batch | InsertDevice 'd "field list" | Get nat | Remove nat

fun run_call :: "('s, 'd, 'f) spill_env \<Rightarrow> 'd call \<Rightarrow> ('s, 'd) manager \<Rightarrow> ('s, 'd) manager" where
  "run_call E (InsertHost b) m = snd (insert_host E b m)"
| "run_call E (InsertDevice d fs) m = snd (insert_device E d fs m)"
| "run_call E (Get i) m = snd (get_batch E i m)"
| "run_call E (Remove i) m = snd (remove E i m)"

fun call_succeeds :: "('s, 'd, 'f) spill_env \<Rightarrow> 'd call \<Rightarrow> ('s, 'd) manager \<Rightarrow> bool" where
  "call_succeeds E (InsertHost b) m = (\<not> isl (fst (insert_host E b m)))"
| "call_succeeds E (InsertDevice d fs) m = (\<not> isl (fst (insert_device E d fs m)))"
| "call_succeeds E (Get i) m = (\<not> isl (fst (get_batch E i m)))"
| "call_succeeds E (Remove i) m = (\<not> isl (fst (remove E i m)))"

definition run_calls :: "('s, 'd, 'f) spill_env \<Rightarrow> 'd call list \<Rightarrow> ('s, 'd) manager \<Rightarrow> ('s, 'd) manager" where
  "run_calls E cs m = foldl (\<lambda>m c. run_call E c m) m cs"

fun all_succeed :: "('s, 'd, 'f) spill_env \<Rightarrow> 'd call list \<Rightarrow> ('s, 'd) manager \<Rightarrow> bool" where
  "all_succeed E [] m = True"
| "all_succeed E (c # cs) m = (call_succeeds E c m \<and> all_succeed E cs (run_call E c m))"

text \<open>The same calls on a map from identifiers to batches, with the next identifier.\<close>

fun map_call :: "('s, 'd, 'f) spill_env \<Rightarrow> 'd call \<Rightarrow> nat \<times> (nat \<Rightarrow> (engine_error + batch) option)
    \<Rightarrow> nat \<times> (nat \<Rightarrow> (engine_error + batch) option)" where
  "map_call E (InsertHost b) (n, M) = (Suc n, M(n \<mapsto> Inr b))"
| "map_call E (InsertDevice d fs) (n, M) = (Suc n, M(n \<mapsto> dev_to_host E d))"
| "map_call E (Get i) (n, M) = (n, M)"
| "map_call E (Remove i) (n, M) = (n, M(i := None))"

definition map_calls :: "('s, 'd, 'f) spill_env \<Rightarrow> 'd call list \<Rightarrow> nat \<times> (nat \<Rightarrow> (engine_error + batch) option)" where
  "map_calls E cs = foldl (\<lambda>s c. map_call E c s) (1, \<lambda>_. None) cs"

fun call_fits :: "('s, 'd, 'f) spill_env \<Rightarrow> nat \<Rightarrow> 'd call \<Rightarrow> bool" where
  "call_fits E B (InsertHost b) = batch_fits E B b"
| "call_fits E B (InsertDevice d fs) = (dev_bytes E d \<le> B \<and> (\<forall>b. dev_to_host E d = Inr b \<longrightarrow> batch_fits E B b))"
| "call_fits E B _ = True"

lemma impl_of_empty [simp]: "DAList.impl_of DAList.empty = []"
  by transfer simp

lemma manager_new_ok: "spill_ok content E B (manager_new h s)" "held content E (manager_new h s) = (\<lambda>_. None)"
proof -
  have "[0, 0, 0 :: nat] ! tier_idx t = 0" for t by (cases t) simp_all
  then show "spill_ok content E B (manager_new h s)" by (simp add: spill_ok_def manager_new_def tier_sum_def)
qed (simp add: held_def manager_new_def fun_eq_iff)

lemma manager_new_fields: "next_id (manager_new h s) = 1" "clock (manager_new h s) = 0" "entries (manager_new h s) = DAList.empty"
  by (simp_all add: manager_new_def)

lemma demote_frame:
  "next_id (demote_device E i e b m) = next_id m" "clock (demote_device E i e b m) = clock m"
  "next_id (demote_host i e p db m) = next_id m" "clock (demote_host i e p db m) = clock m"
  "DAList.lookup (entries m) i = Some e \<Longrightarrow> length (entry_list (demote_device E i e b m)) = length (entry_list m)"
  "DAList.lookup (entries m) i = Some e \<Longrightarrow> length (entry_list (demote_host i e p db m)) = length (entry_list m)"
  by (simp_all add: demote_device_def demote_host_def Let_def tier_sum_update(2))

lemma enforce_device_frame:
  "next_id (snd (enforce_device E m)) = next_id m \<and> clock (snd (enforce_device E m)) = clock m
   \<and> length (entry_list (snd (enforce_device E m))) = length (entry_list m)"
proof (induction E m rule: enforce_device.induct)
  case (1 E m)
  then show ?case unfolding enforce_device.simps [of E m]
    by (simp add: demote_frame split: option.split payload.split sum.split)
qed

lemma enforce_host_frame:
  "next_id (snd (enforce_host E m)) = next_id m \<and> clock (snd (enforce_host E m)) = clock m
   \<and> length (entry_list (snd (enforce_host E m))) = length (entry_list m)"
proof (induction E m rule: enforce_host.induct)
  case (1 E m)
  then show ?case unfolding enforce_host.simps [of E m]
    by (simp add: demote_frame split: option.split payload.split sum.split prod.split)
qed

text \<open>Every call grows the counters and the entries by one at most.\<close>

definition grows :: "('s, 'd) manager \<Rightarrow> ('s, 'd) manager \<Rightarrow> bool" where
  "grows m m' \<longleftrightarrow> next_id m' \<le> Suc (next_id m) \<and> clock m' \<le> Suc (clock m) \<and>
     length (entry_list m') \<le> Suc (length (entry_list m))"

lemma length_update: "length (DAList.impl_of (DAList.update i e al)) \<le> Suc (length (DAList.impl_of al))"
proof -
  have "length (AList.update i e xs) \<le> Suc (length xs)" for xs by (induction xs) auto
  then show ?thesis by (simp add: impl_of_update)
qed

lemma length_delete: "length (DAList.impl_of (DAList.delete i al)) \<le> length (DAList.impl_of al)"
proof -
  have "DAList.impl_of (DAList.delete i al) = AList.delete i (DAList.impl_of al)" by transfer simp
  then show ?thesis using length_delete_le by metis
qed

lemma grows_publish [simp]: "grows m (publish m') = grows m m'"
  by (simp add: grows_def)

lemma grows_enforce_host: "grows m m1 \<Longrightarrow> grows m (snd (enforce_host E m1))"
  using enforce_host_frame [of E m1] by (simp add: grows_def)

lemma grows_enforce_device: "grows m m1 \<Longrightarrow> grows m (snd (enforce_device E m1))"
  using enforce_device_frame [of E m1] by (simp add: grows_def)

lemma grows_result:
  assumes "grows m (snd r)" and "\<And>u m1. grows m m1 \<Longrightarrow> grows m (snd (g u m1))"
  shows "grows m (snd (case r of (Inl e, m1) \<Rightarrow> (Inl e, m1) | (Inr u, m1) \<Rightarrow> g u m1))"
  using assms by (cases r; cases "fst r") auto

lemma get_batch_grows:
  assumes "u64_add (clock m) (Suc 0) = Suc (clock m)"
  shows "grows m (snd (get_batch E i m))"
proof (cases "DAList.lookup (entries m) i")
  case None
  then show ?thesis using assms by (simp add: get_batch_def tick_def grows_def)
next
  case (Some e)
  show ?thesis
  proof (cases "e_payload e")
    case (PDisk p)
    show ?thesis
    proof (cases "read_spill E p (m_store m)")
      case (Inl err)
      then show ?thesis using assms Some PDisk
        by (simp add: get_batch_def tick_def grows_def tier_sum_update(2) [OF Some])
    next
      case (Inr b)
      have "grows m ((promote i (e\<lparr>e_touch := t\<rparr>) b hb (m\<lparr>clock := Suc (clock m),
          entries := DAList.update i (e\<lparr>e_touch := t\<rparr>) (entries m)\<rparr>))\<lparr>m_store := s\<rparr>)" for t hb s
        by (simp add: grows_def promote_def tier_sum_update(2) [OF Some])
      then show ?thesis using assms Some PDisk Inr
        by (auto simp: get_batch_def tick_def Let_def simp del: grows_publish
            intro!: grows_result grows_enforce_host simp: grows_publish)
    qed
  qed (use assms Some in \<open>simp_all add: get_batch_def tick_def grows_def tier_sum_update(2) [OF Some]\<close>)
qed

lemma remove_grows: "grows m (snd (remove E i m))"
  by (auto simp: remove_def Let_def grows_def le_SucI length_delete split: option.split payload.split prod.split sum.split
      store_error.split)

lemma capacity_mono: "n \<le> k \<Longrightarrow> Suc k * B \<le> u \<Longrightarrow> Suc n * B \<le> (u :: nat)"
  by (metis Suc_le_mono le_trans mult_le_mono1)

lemma run_call_grows:
  assumes "room m"
  shows "grows m (run_call E c m)"
proof -
  have add: "u64_add (next_id m) (Suc 0) = Suc (next_id m)" "u64_add (clock m) (Suc 0) = Suc (clock m)"
    using assms u64_add_exact by (simp_all add: room_def)
  show ?thesis
  proof (cases c)
    case (InsertHost b)
    have "grows m (snd (insert_host E b m))"
      unfolding insert_host_def tick_def put_entry_def Let_def prod.case
      by (intro grows_result grows_enforce_host) (simp_all add: grows_def add length_update)
    then show ?thesis by (simp add: InsertHost)
  next
    case (InsertDevice d fs)
    have "grows m (snd (insert_device E d fs m))"
      unfolding insert_device_def tick_def put_entry_def Let_def prod.case
      by (intro grows_result grows_enforce_host grows_enforce_device) (simp_all add: grows_def add length_update)
    then show ?thesis by (simp add: InsertDevice)
  qed (simp_all add: get_batch_grows add remove_grows)
qed

context spill_world
begin

lemma run_call_ok:
  assumes "spill_ok content E B m" and "room m" and "call_fits E B c" and "Suc (length (entry_list m)) * B \<le> u64_max"
  shows "spill_ok content E B (run_call E c m)
    \<and> (next_id (run_call E c m), held content E (run_call E c m)) = map_call E c (next_id m, held content E m)
    \<and> (call_succeeds E c m \<longrightarrow> within_budget E m \<longrightarrow> within_budget E (run_call E c m))"
proof (cases c)
  case (InsertHost b)
  obtain r m' where r: "insert_host E b m = (r, m')" by fastforce
  show ?thesis using insert_host_ok [OF assms(1,2) _ assms(4) r] assms(3) r InsertHost by (cases r) auto
next
  case (InsertDevice d fs)
  obtain r m' where r: "insert_device E d fs m = (r, m')" by fastforce
  show ?thesis using insert_device_ok [OF assms(1,2) _ _ assms(4) r] assms(3) r InsertDevice by (cases r) auto
next
  case (Get i)
  obtain r m' where r: "get_batch E i m = (r, m')" by fastforce
  show ?thesis using get_batch_ok [OF assms(1,2) r] r Get by (cases r) auto
next
  case (Remove i)
  obtain r m' where r: "remove E i m = (r, m')" by fastforce
  show ?thesis using remove_ok [OF assms(1) r] r Remove by (cases r) auto
qed

lemma run_calls_ok:
  fixes h s
  assumes "\<forall>c \<in> set cs. call_fits E B c" and "length cs < u64_max" and "length cs * B \<le> u64_max"
  defines "m \<equiv> run_calls E cs (manager_new h s)"
  shows "spill_ok content E B m \<and> (next_id m, held content E m) = map_calls E cs
    \<and> next_id m \<le> Suc (length cs) \<and> clock m \<le> length cs \<and> length (entry_list m) \<le> length cs"
  unfolding m_def using assms(1-3)
proof (induction cs rule: rev_induct)
  case Nil
  show ?case by (simp add: run_calls_def map_calls_def manager_new_ok manager_new_fields)
next
  case (snoc c cs)
  let ?m = "run_calls E cs (manager_new h s)"
  have IH: "spill_ok content E B ?m" "(next_id ?m, held content E ?m) = map_calls E cs"
      "next_id ?m \<le> Suc (length cs)" "clock ?m \<le> length cs" "length (entry_list ?m) \<le> length cs"
    using snoc by simp_all
  have room: "room ?m" using IH(3,4) snoc.prems(2) by (simp add: room_def)
  have cap: "Suc (length (entry_list ?m)) * B \<le> u64_max"
    using capacity_mono [OF IH(5)] snoc.prems(3) by simp
  have "call_fits E B c" using snoc.prems(1) by simp
  from run_call_ok [OF IH(1) room this cap] run_call_grows [OF room, of E c] IH
  show ?case by (simp add: run_calls_def map_calls_def grows_def)
qed

lemma run_calls_budget:
  assumes "\<forall>c \<in> set cs. call_fits E B c" and "length cs < u64_max" and "length cs * B \<le> u64_max"
    and "all_succeed E cs (manager_new h s)"
  shows "within_budget E (run_calls E cs (manager_new h s))"
  using assms
proof (induction cs rule: rev_induct)
  case Nil
  show ?case by (simp add: run_calls_def within_budget_def manager_new_def)
next
  case (snoc c cs)
  let ?m = "run_calls E cs (manager_new h s)"
  have split: "all_succeed E (xs @ [c]) m \<longleftrightarrow> all_succeed E xs m \<and> call_succeeds E c (run_calls E xs m)" for xs m
    by (induction xs arbitrary: m) (simp_all add: run_calls_def)
  have len: "length cs * B \<le> u64_max" using snoc.prems(3) by simp
  have ok: "spill_ok content E B ?m" "next_id ?m \<le> Suc (length cs)" "clock ?m \<le> length cs" "length (entry_list ?m) \<le> length cs"
    using run_calls_ok [of cs B h s] snoc.prems(1,2) len by simp_all
  have "Suc (length (entry_list ?m)) * B \<le> u64_max"
    using capacity_mono [OF ok(4)] snoc.prems(3) by simp
  moreover have "room ?m" using ok(2,3) snoc.prems(2) by (simp add: room_def)
  moreover have "within_budget E ?m" "call_succeeds E c ?m" using snoc split len by simp_all
  moreover have "call_fits E B c" using snoc.prems(1) by simp
  ultimately have "within_budget E (run_call E c ?m)" using run_call_ok [OF ok(1)] by blast
  then show ?case by (simp add: run_calls_def)
qed

end

section \<open>Without failures\<close>

context reliable_world
begin

lemma write_spill_succeeds: "\<exists>n s'. write_spill E p b s = (Inr n, s')"
proof -
  obtain f where "ipc_write E b = Inr f" using write_succeeds by blast
  moreover obtain s' where "st_put E p f s = (Inr (), s')" using put_succeeds by blast
  ultimately show ?thesis by (simp add: write_spill_def encode_batch_def)
qed

lemma enforce_host_succeeds: "\<exists>m'. enforce_host E m = (Inr (), m')"
proof (induction "tier_count Host_tier m" arbitrary: m rule: less_induct)
  case less
  show ?case
  proof (cases "coldest Host_tier m")
    case None
    then show ?thesis by (simp add: enforce_host.simps)
  next
    case (Some i)
    obtain e where e: "DAList.lookup (entries m) i = Some e" "e_tier e = Host_tier"
      using coldest_lookup [OF Some] by blast
    show ?thesis
    proof (cases "e_payload e")
      case (PHost b)
      obtain n s where w: "write_spill E (spill_path E i) b (m_store m) = (Inr n, s)"
        using write_spill_succeeds by blast
      let ?m = "demote_host i e (spill_path E i) n (m\<lparr>m_store := s\<rparr>)"
      have "tier_count Host_tier ?m < tier_count Host_tier m"
        using e by (intro demotion_counts [OF e(1)]) (auto simp: demote_host_def)
      then show ?thesis using less Some e(1) PHost w by (simp add: enforce_host.simps [of E m])
    qed (use Some e(1) in \<open>simp_all add: enforce_host.simps\<close>)
  qed
qed

lemma read_spill_succeeds:
  assumes "entry_ok content E B s i e" and "e_payload e = PDisk p"
  shows "\<exists>b. read_spill E p s = Inr b"
proof -
  obtain b f where f: "content s p = Some f" "ipc_write E b = Inr f" using assms by (auto simp: entry_ok_def)
  then obtain g where g: "st_get E p s = Inr g" using get_succeeds by blast
  then have "g = f" using get_ok [OF g] f(1) by simp
  then show ?thesis using g decode_written [OF f(2)] by (simp add: read_spill_def)
qed

lemma get_batch_returns:
  assumes "spill_ok content E B m" and "room m"
  shows "fst (get_batch E i m) = (case held content E m i of
      None \<Rightarrow> Inl (Execution [Txt ''spill: unknown batch id '', Num i]) | Some v \<Rightarrow> v)"
proof -
  obtain r m' where r: "get_batch E i m = (r, m')" by fastforce
  note ok = get_batch_ok [OF assms r]
  show ?thesis
  proof (cases "DAList.lookup (entries m) i")
    case None
    then show ?thesis by (simp add: get_batch_def tick_def held_def)
  next
    case (Some e)
    show ?thesis
    proof (cases "e_payload e")
      case (PDisk p)
      obtain b where b: "read_spill E p (m_store m) = Inr b"
        using read_spill_succeeds spill_ok_entry [OF assms(1) Some] PDisk by blast
      have "r = Inr b"
        using r Some PDisk b enforce_host_succeeds
        by (auto simp: get_batch_def tick_def Let_def split: prod.splits sum.splits) (metis Inl_Inr_False prod.inject)+
      then show ?thesis using ok r by simp
    qed (use Some in \<open>simp_all add: get_batch_def tick_def held_def entry_value_def\<close>)
  qed
qed

end

section \<open>A store in memory\<close>

definition mem_env :: "nat \<Rightarrow> nat \<Rightarrow> (string \<Rightarrow> batch option, batch, batch) spill_env" where
  "mem_env db hb = \<lparr>budget = \<lparr>budget_device = db, budget_host = hb\<rparr>, prefix = ''spill'', path_from = (\<lambda>p. p),
     st_put = (\<lambda>p f s. (Inr (), s(p \<mapsto> f))),
     st_get = (\<lambda>p s. case s p of None \<Rightarrow> Inl (StoreNotFound p ''no such file'') | Some f \<Rightarrow> Inr f),
     st_delete = (\<lambda>p s. (Inr (), s(p := None))),
     st_show = (\<lambda>_. ''store error''),
     mem_size = (\<lambda>b. 8 * num_rows b * length (columns b)),
     ipc_write = Inr,
     file_len = (\<lambda>b. 8 * num_rows b * length (columns b) + 64),
     ipc_open = (\<lambda>f. Inr (schema f, [Inr f])),
     ipc_concat = (\<lambda>fs bs. Inl (ArrowOther ''one batch per file'')),
     show_arrow = (\<lambda>_. ''arrow error''),
     dev_bytes = (\<lambda>b. 8 * num_rows b * length (columns b)),
     dev_to_host = Inr\<rparr>"

interpretation mem: reliable_world "\<lambda>s. s" "mem_env db hb" for db hb
proof
  show "spill_path (mem_env db hb) i = spill_path (mem_env db hb) j \<Longrightarrow> i = j" for i j
    by (simp add: spill_path_def mem_env_def)
qed (auto simp: mem_env_def split: option.splits)

section \<open>Least recently used\<close>

lemma coldest_of_unique:
  assumes "mset es = mset es'" and "distinct (map (\<lambda>(_, e). e_touch e) (filter (\<lambda>(_, e). e_tier e = t) es))"
  shows "coldest_of t es = coldest_of t es'"
proof -
  have set: "set es = set es'" using assms(1) by (metis set_mset_mset)
  show ?thesis
  proof (cases "coldest_of t es")
    case None
    then show ?thesis using set coldest_of_None [of t es] coldest_of_None [of t es'] by simp
  next
    case (Some i)
    then obtain j where j: "coldest_of t es' = Some j"
      using set coldest_of_None [of t es] coldest_of_None [of t es'] by (cases "coldest_of t es'") simp_all
    obtain e where e: "(i, e) \<in> set es" "e_tier e = t" "\<forall>(k, x) \<in> set es. e_tier x = t \<longrightarrow> e_touch e \<le> e_touch x"
      using coldest_of_Some [OF Some] by blast
    obtain d where d: "(j, d) \<in> set es" "e_tier d = t" "\<forall>(k, x) \<in> set es. e_tier x = t \<longrightarrow> e_touch d \<le> e_touch x"
      using coldest_of_Some [OF j] set by blast
    have eq: "e_touch e = e_touch d" using e d by (intro order_antisym) blast+
    have "inj_on (\<lambda>(_, e). e_touch e) (set (filter (\<lambda>(_, e). e_tier e = t) es))"
      using assms(2) by (simp add: distinct_map)
    then have "(i, e) = (j, d)" by (rule inj_onD) (use e(1,2) d(1,2) eq in simp_all)
    then show ?thesis using Some j by simp
  qed
qed

lemma touch_inj:
  assumes "spill_ok content E B m" and "DAList.lookup (entries m) i = Some e" and "DAList.lookup (entries m) j = Some e'"
    and "e_touch e = e_touch e'"
  shows "i = j"
proof -
  have "inj_on (\<lambda>i. map_option e_touch (DAList.lookup (entries m) i)) {i. DAList.lookup (entries m) i \<noteq> None}"
    using assms(1) by (simp add: spill_ok_def)
  then show ?thesis by (rule inj_onD) (use assms(2-4) in simp_all)
qed

lemma touches_distinct:
  assumes "spill_ok content E B m"
  shows "distinct (map (\<lambda>(_, e). e_touch e) (filter (\<lambda>(_, e). e_tier e = t) (entry_list m)))"
proof -
  have "distinct (entry_list m)" using impl_of_distinct [of "entries m"] by (simp add: distinct_map)
  moreover have "inj_on (\<lambda>(_, e). e_touch e) (set (entry_list m))"
  proof (rule inj_onI, clarify)
    fix i e j e' assume ij: "(i, e) \<in> set (entry_list m)" "(j, e') \<in> set (entry_list m)" "e_touch e = e_touch e'"
    then have "i = j" using touch_inj [OF assms, of i e j e'] by (simp add: lookup_impl)
    then show "i = j \<and> e = e'" using ij(1,2) by (metis lookup_impl option.inject)
  qed
  ultimately show ?thesis by (auto simp: distinct_map intro: inj_on_subset)
qed

section \<open>Properties\<close>

text \<open>
  C9: The spill manager refines a map from identifiers to batches.  Whatever calls are made, whatever
  evictions and promotions they cause, and whichever store operations fail on the way, a batch stays
  available under its identifier until it is removed, and the identifiers given out are the ones of
  the map.
\<close>

theorem spill_refines_map:
  assumes "spill_world content E" and "\<forall>c \<in> set cs. call_fits E B c"
    and "length cs < u64_max" and "length cs * B \<le> u64_max"
  shows "(next_id (run_calls E cs (manager_new h s)), held content E (run_calls E cs (manager_new h s))) = map_calls E cs"
  using spill_world.run_calls_ok [OF assms, of h s] by simp

definition sample_batch :: "i64 \<Rightarrow> batch" where
  "sample_batch v = \<lparr>schema = [Field ''k'' Int64 False], columns = [int64_array [Some v]], num_rows = 1\<rparr>"

lemma sample_fits: "batch_fits (mem_env db hb) 100 (sample_batch v)"
  by (simp add: batch_fits_def batch_bytes_def mem_env_def sample_batch_def u64_max_def)

theorem spill_refines_map_witness:
  "held (\<lambda>s. s) (mem_env 0 8) (run_calls (mem_env 0 8)
      [InsertHost (sample_batch 7), InsertHost (sample_batch 9), Get 1, Remove 2] (manager_new hub_new (\<lambda>_. None)))
    = [1 \<mapsto> Inr (sample_batch 7)]"
  using spill_refines_map [OF mem.spill_world_axioms, of
      "[InsertHost (sample_batch 7), InsertHost (sample_batch 9), Get 1, Remove 2]" 0 8 100 hub_new "\<lambda>_. None"]
  by (simp add: sample_fits u64_max_def map_calls_def fun_eq_iff)

text \<open>
  C10: On a store whose operations succeed, reading returns exactly the batch that was inserted under
  the identifier, wherever it lives by then, and an error for an identifier that holds nothing.
\<close>

theorem spill_get_returns:
  assumes "reliable_world content E" and "\<forall>c \<in> set cs. call_fits E B c"
    and "Suc (length cs) < u64_max" and "length cs * B \<le> u64_max"
  shows "fst (get_batch E i (run_calls E cs (manager_new h s))) = (case snd (map_calls E cs) i of
      None \<Rightarrow> Inl (Execution [Txt ''spill: unknown batch id '', Num i]) | Some v \<Rightarrow> v)"
proof -
  have w: "spill_world content E" using assms(1) by (simp add: reliable_world_def)
  have len: "length cs < u64_max" using assms(3) by simp
  note ok = spill_world.run_calls_ok [OF w assms(2) len assms(4), of h s]
  then have "room (run_calls E cs (manager_new h s))" using assms(3) by (simp add: room_def)
  then show ?thesis
    using reliable_world.get_batch_returns [OF assms(1), of B "run_calls E cs (manager_new h s)" i] ok
    by (metis snd_conv)
qed

theorem spill_get_returns_witness:
  "fst (get_batch (mem_env 0 8) 1 (run_calls (mem_env 0 8)
      [InsertHost (sample_batch 7), InsertHost (sample_batch 9)] (manager_new hub_new (\<lambda>_. None))))
    = Inr (sample_batch 7)"
  using spill_get_returns [OF mem.reliable_world_axioms, of
      "[InsertHost (sample_batch 7), InsertHost (sample_batch 9)]" 0 8 100 1 hub_new "\<lambda>_. None"]
  by (simp add: sample_fits u64_max_def map_calls_def)

text \<open>
  C11: The byte counters are exact: after any calls, failed ones included, the bytes reported for a
  tier are the sum of the bytes of the entries in it.
\<close>

theorem spill_accounting:
  assumes "spill_world content E" and "\<forall>c \<in> set cs. call_fits E B c"
    and "length cs < u64_max" and "length cs * B \<le> u64_max"
  shows "used (run_calls E cs (manager_new h s)) ! tier_idx t = tier_sum t (entry_list (run_calls E cs (manager_new h s)))"
  using spill_world.run_calls_ok [OF assms, of h s] by (simp add: spill_ok_def)

theorem spill_accounting_witness:
  "used (run_calls (mem_env 0 8) [InsertHost (sample_batch 7)] (manager_new hub_new (\<lambda>_. None))) ! 1
    = tier_sum Host_tier (entry_list (run_calls (mem_env 0 8) [InsertHost (sample_batch 7)] (manager_new hub_new (\<lambda>_. None))))"
  using spill_accounting [OF mem.spill_world_axioms, of "[InsertHost (sample_batch 7)]" 0 8 100 hub_new "\<lambda>_. None" Host_tier]
  by (simp add: sample_fits u64_max_def)




definition sample_entry :: "nat \<Rightarrow> batch entry" where
  "sample_entry t = \<lparr>e_tier = Host_tier, e_bytes = 8, e_host_bytes = 8, e_touch = t, e_schema = [Field ''k'' Int64 False],
     e_payload = PHost (sample_batch 7)\<rparr>"

definition sample_manager :: "(string \<Rightarrow> batch option, batch) manager" where
  "sample_manager = \<lparr>entries = DAList.update 2 (sample_entry 1) (DAList.update 1 (sample_entry 2) DAList.empty),
     used = [0, 16, 0], next_id = 3, clock = 2, m_hub = hub_new, m_store = (\<lambda>_. None)\<rparr>"

lemma sample_manager_list: "entry_list sample_manager = [(1, sample_entry 2), (2, sample_entry 1)]"
  by (simp add: sample_manager_def impl_of_update)

lemma sample_manager_ok: "spill_ok (\<lambda>s. s) (mem_env 0 8) 100 sample_manager"
proof -
  have "used sample_manager ! tier_idx t = tier_sum t (entry_list sample_manager)" for t
    by (cases t) (simp_all add: sample_manager_list tier_sum_def sample_entry_def, simp_all add: sample_manager_def)
  moreover have "DAList.lookup (entries sample_manager) i =
      (if i = 2 then Some (sample_entry 1) else if i = 1 then Some (sample_entry 2) else None)" for i
    by (simp add: sample_manager_def lookup_update)
  moreover have "length (used sample_manager) = 3" "next_id sample_manager = 3" "clock sample_manager = 2"
    by (simp_all add: sample_manager_def)
  ultimately show ?thesis
    by (auto simp: spill_ok_def sample_manager_list u64_max_def entry_ok_def sample_entry_def sample_fits inj_on_def
        split: if_splits)
qed



end
