(* ===== verification/Exec_Nodes.thy ===== *)
theory Exec_Nodes
  imports Operator_Correct
begin

text \<open>
  The physical plan and OxideLake's own plan nodes (\<open>crates/oxidelake-compute/src/exec\<close>), their
  \<open>EXPLAIN\<close> text (\<open>display.rs\<close>), the process-wide backend (\<open>backend.rs\<close>) and the distance functions of the
  SQL surface (\<open>udf.rs\<close>).

  DataFusion's plan nodes and expressions are data the sources match on: \<open>plan\<close> has the nodes the sources
  name, with what the sources read of them, and \<open>OtherExec\<close> for the rest; every node carries the schema
  and the partition count that \<open>schema()\<close> and \<open>output_partitioning()\<close> answer.  What DataFusion computes
  about its own nodes is the argument \<open>df_ops\<close>.  A node of OxideLake is its input beside a record of its
  other attributes.  Execution metrics and tracing spans are not kept.
\<close>

section \<open>Expressions and plans\<close>

datatype scalar = SInt64 "i64 option" | SFloat64 "f64 option" | SFloat32 "f32 option"
  | SFixedSizeList array | SOther string

datatype df_operator = OpEq | OpLt | OpLtEq | OpGt | OpGtEq | OpAnd | OpOther string

datatype pexpr = EColumn string nat | ELiteral scalar | EBinary pexpr df_operator pexpr
  | EScalarFunction string "pexpr list" | EOther string

record node_props =
  np_schema :: "field list"
  np_partitions :: nat

datatype join_type = InnerJoin | OtherJoin string

record join_info =
  ji_type :: join_type
  ji_filter :: "pexpr option"
  ji_null_equals_nothing :: bool
  ji_on :: "(pexpr \<times> pexpr) list"
  ji_projection :: "nat list option"

datatype agg_mode = ModePartial | ModeFinal | ModeFinalPartitioned | ModeSingle | ModeSinglePartitioned
  | ModeOther string

record agg_expr =
  ae_fun :: string
  ae_distinct :: bool
  ae_args :: "pexpr list"

record agg_info =
  ag_mode :: agg_mode
  ag_group :: "(pexpr \<times> string) list"
  ag_single_set :: bool
  ag_null_exprs :: "(pexpr \<times> string) list"
  ag_aggrs :: "agg_expr list"
  ag_filters :: "pexpr option list"

text \<open>The settings of a node: the planned backend, whether a telemetry hub is attached, and the
  registration made at the first execution.  The explicit backend a caller may attach is the backend
  argument of the executions.\<close>

record exec_config =
  ec_target :: backend_kind
  ec_telemetry :: bool
  ec_stats :: "operator_stats option"

record gpu_filter =
  gf_predicate :: predicate
  gf_projection :: "nat list"
  gf_props :: node_props
  gf_config :: exec_config

record gpu_join =
  gj_left_key :: nat
  gj_right_key :: nat
  gj_projection :: "nat list option"
  gj_props :: node_props
  gj_config :: exec_config

record gpu_aggregate =
  ga_spec :: aggregate_spec
  ga_props :: node_props
  ga_config :: exec_config

record gpu_vector =
  gv_column :: nat
  gv_query :: "f32 list"
  gv_metric :: distance_metric
  gv_output_name :: string
  gv_props :: node_props
  gv_config :: exec_config

datatype plan =
    FilterExec plan pexpr "nat list option" node_props
  | ProjectionExec plan "(pexpr \<times> string) list" node_props
  | HashJoinExec plan plan join_info node_props
  | SortMergeJoinExec plan plan join_info node_props
  | SortExec plan string "nat option" node_props
  | RepartitionExec plan string node_props
  | CoalescePartitionsExec plan node_props
  | AggregateExec plan agg_info node_props
  | OtherExec string "plan list" node_props
  | GpuFilterExec plan gpu_filter
  | GpuHashJoinExec plan plan gpu_join
  | GpuAggregateExec plan gpu_aggregate
  | GpuVectorDistanceExec plan gpu_vector

fun plan_props :: "plan \<Rightarrow> node_props" where
  "plan_props (FilterExec i e js pr) = pr"
| "plan_props (ProjectionExec i es pr) = pr"
| "plan_props (HashJoinExec l r j pr) = pr"
| "plan_props (SortMergeJoinExec l r j pr) = pr"
| "plan_props (SortExec i k n pr) = pr"
| "plan_props (RepartitionExec i k pr) = pr"
| "plan_props (CoalescePartitionsExec i pr) = pr"
| "plan_props (AggregateExec i a pr) = pr"
| "plan_props (OtherExec n cs pr) = pr"
| "plan_props (GpuFilterExec i g) = gf_props g"
| "plan_props (GpuHashJoinExec l r g) = gj_props g"
| "plan_props (GpuAggregateExec i g) = ga_props g"
| "plan_props (GpuVectorDistanceExec i g) = gv_props g"

abbreviation plan_schema :: "plan \<Rightarrow> field list" where
  "plan_schema p \<equiv> np_schema (plan_props p)"

abbreviation partition_count :: "plan \<Rightarrow> nat" where
  "partition_count p \<equiv> np_partitions (plan_props p)"

fun children :: "plan \<Rightarrow> plan list" where
  "children (FilterExec i e js pr) = [i]"
| "children (ProjectionExec i es pr) = [i]"
| "children (HashJoinExec l r j pr) = [l, r]"
| "children (SortMergeJoinExec l r j pr) = [l, r]"
| "children (SortExec i k n pr) = [i]"
| "children (RepartitionExec i k pr) = [i]"
| "children (CoalescePartitionsExec i pr) = [i]"
| "children (AggregateExec i a pr) = [i]"
| "children (OtherExec n cs pr) = cs"
| "children (GpuFilterExec i g) = [i]"
| "children (GpuHashJoinExec l r g) = [l, r]"
| "children (GpuAggregateExec i g) = [i]"
| "children (GpuVectorDistanceExec i g) = [i]"

section \<open>Errors of the planning layer\<close>

abbreviation df_fail :: "df_error \<Rightarrow> 'a result" where
  "df_fail e \<equiv> fail (DataFusion e)"

definition plan_err :: "message \<Rightarrow> 'a result" where
  "plan_err m = df_fail (DfPlan m)"

text \<open>\<open>?\<close> on an engine error and on an Arrow error, in a function that returns DataFusion's result.\<close>

fun engine_fault :: "fault \<Rightarrow> fault" where
  "engine_fault (Err e) = Err (DataFusion (to_datafusion e))"
| "engine_fault (Panic m) = Panic m"

abbreviation into_df :: "'a result \<Rightarrow> 'a result" where
  "into_df r \<equiv> map_err engine_fault r"

abbreviation arrow_df :: "arrow_error + 'a \<Rightarrow> 'a result" where
  "arrow_df r \<equiv> map_err (\<lambda>e. Err (DataFusion (ArrowErr e None))) r"

text \<open>\<open>Schema::project\<close>, and \<open>Schema::field\<close>, which panics out of range.\<close>

definition schema_project :: "field list \<Rightarrow> nat list \<Rightarrow> arrow_error + field list" where
  "schema_project fs js = (if \<forall>j \<in> set js. j < length fs then Inr (map ((!) fs) js)
     else Inl (ArrowOther ''project index out of bounds''))"

definition schema_field :: "field list \<Rightarrow> nat \<Rightarrow> field result" where
  "schema_field fs i = (if i < length fs then Inr (fs ! i) else Inl (Panic ''index out of bounds''))"

section \<open>Validation\<close>

definition MAX_PREDICATE_LEAVES :: nat where "MAX_PREDICATE_LEAVES = 64"

definition config_new :: "backend_kind \<Rightarrow> exec_config" where
  "config_new target = \<lparr>ec_target = target, ec_telemetry = False, ec_stats = None\<rparr>"

definition column_type :: "field list \<Rightarrow> nat \<Rightarrow> string \<Rightarrow> data_type result" where
  "column_type fs index what = (if index < length fs then Inr (field_type (fs ! index))
     else plan_err [Txt what, Txt '': column index '', Num index, Txt '' out of range for the schema''])"

fun validate_predicate_leaves :: "field list \<Rightarrow> predicate \<Rightarrow> unit result" where
  "validate_predicate_leaves fs (Compare column op lit) =
     and_then (column_type fs column ''GpuFilterExec predicate'') (\<lambda>dt.
     let expected = (case lit of LInt64 _ \<Rightarrow> Int64 | LFloat64 _ \<Rightarrow> Float64) in
     if dt \<noteq> expected
     then plan_err [Txt ''GpuFilterExec predicate: column '', Num column, Txt '' has type '', Ty dt,
            Txt '' but the literal is '', Ty expected]
     else Inr ())"
| "validate_predicate_leaves fs (And l r) =
     and_then (validate_predicate_leaves fs l) (\<lambda>_. validate_predicate_leaves fs r)"

definition validate_predicate :: "field list \<Rightarrow> predicate \<Rightarrow> unit result" where
  "validate_predicate fs p =
    (let leaves = leaf_count p in
     if leaves > MAX_PREDICATE_LEAVES
     then plan_err [Txt ''GpuFilterExec predicate has '', Num leaves, Txt '' comparisons; at most '',
            Num MAX_PREDICATE_LEAVES, Txt '' are supported'']
     else validate_predicate_leaves fs p)"

section \<open>Building the nodes\<close>

definition filter_try_new :: "plan \<Rightarrow> predicate \<Rightarrow> nat list \<Rightarrow> backend_kind \<Rightarrow> gpu_filter result" where
  "filter_try_new input p projection target =
     and_then (validate_predicate (plan_schema input) p) (\<lambda>_.
     if projection = [] then plan_err [Txt ''GpuFilterExec: projection must select at least one column'']
     else and_then (arrow_df (schema_project (plan_schema input) projection)) (\<lambda>fs.
     Inr \<lparr>gf_predicate = p, gf_projection = projection,
          gf_props = \<lparr>np_schema = fs, np_partitions = partition_count input\<rparr>, gf_config = config_new target\<rparr>))"

definition check_key :: "field list \<Rightarrow> nat \<Rightarrow> string \<Rightarrow> unit result" where
  "check_key fs key side =
     and_then (column_type fs key ''GpuHashJoinExec'') (\<lambda>dt.
     if dt \<noteq> Int64
     then plan_err [Txt ''GpuHashJoinExec: '', Txt side, Txt '' key column '', Num key, Txt '' has type '', Ty dt,
            Txt ''; v1 supports Int64'']
     else Inr ())"

definition joined_schema :: "plan \<Rightarrow> plan \<Rightarrow> field list" where
  "joined_schema left right = plan_schema left @ plan_schema right"

definition join_try_new :: "plan \<Rightarrow> plan \<Rightarrow> nat \<Rightarrow> nat \<Rightarrow> backend_kind \<Rightarrow> gpu_join result" where
  "join_try_new left right left_key right_key target =
     and_then (check_key (plan_schema left) left_key ''left'') (\<lambda>_.
     and_then (check_key (plan_schema right) right_key ''right'') (\<lambda>_.
     Inr \<lparr>gj_left_key = left_key, gj_right_key = right_key, gj_projection = None,
          gj_props = \<lparr>np_schema = joined_schema left right, np_partitions = partition_count left\<rparr>,
          gj_config = config_new target\<rparr>))"

definition with_projection :: "plan \<Rightarrow> plan \<Rightarrow> nat list option \<Rightarrow> gpu_join \<Rightarrow> gpu_join result" where
  "with_projection left right projection g =
    (let full = joined_schema left right in
     and_then (case projection of
         Some indices \<Rightarrow>
           if indices = [] then plan_err [Txt ''GpuHashJoinExec: projection must select at least one column'']
           else arrow_df (schema_project full indices)
       | None \<Rightarrow> Inr full) (\<lambda>fs.
     Inr (g\<lparr>gj_props := \<lparr>np_schema = fs, np_partitions = partition_count left\<rparr>, gj_projection := projection\<rparr>)))"

definition aggregate_output_field :: "field list \<Rightarrow> aggregate_function \<times> nat \<Rightarrow> field result" where
  "aggregate_output_field fs = (\<lambda>(f, idx).
     and_then (column_type fs idx ''GpuAggregateExec aggregate input'') (\<lambda>dt.
     if dt \<noteq> Int64 \<and> dt \<noteq> Float64
     then plan_err [Txt ''GpuAggregateExec: aggregate input column '', Num idx, Txt '' has type '', Ty dt,
            Txt ''; v1 supports Int64 and Float64'']
     else map_res (\<lambda>fd. Field (agg_name f @ ''('' @ field_name fd @ '')'') (if f = AggCount then Int64 else dt) True)
            (schema_field fs idx)))"

definition aggregate_output_schema :: "field list \<Rightarrow> aggregate_spec \<Rightarrow> field list result" where
  "aggregate_output_schema fs spec =
     and_then (column_type fs (group_by spec) ''GpuAggregateExec group key'') (\<lambda>key_type.
     if key_type \<noteq> Int64
     then plan_err [Txt ''GpuAggregateExec: group key column '', Num (group_by spec), Txt '' has type '', Ty key_type,
            Txt ''; v1 supports Int64'']
     else and_then (schema_field fs (group_by spec)) (\<lambda>key.
     map_res ((#) (Field (field_name key) Int64 True)) (collect_res (aggregate_output_field fs) (aggregates spec))))"

definition aggregate_try_new :: "plan \<Rightarrow> aggregate_spec \<Rightarrow> backend_kind \<Rightarrow> gpu_aggregate result" where
  "aggregate_try_new input spec target =
     map_res (\<lambda>fs. \<lparr>ga_spec = spec, ga_props = \<lparr>np_schema = fs, np_partitions = 1\<rparr>, ga_config = config_new target\<rparr>)
       (aggregate_output_schema (plan_schema input) spec)"

fun same_types :: "(field \<times> field) list \<Rightarrow> unit result" where
  "same_types [] = Inr ()"
| "same_types ((planned, ours) # rest) =
    (if field_type planned \<noteq> field_type ours
     then plan_err [Txt ''GpuAggregateExec: planned field '', Txt (field_name planned), Txt '' has type '',
            Ty (field_type planned), Txt '', the spec yields '', Ty (field_type ours)]
     else same_types rest)"

definition with_output_schema :: "field list \<Rightarrow> gpu_aggregate \<Rightarrow> gpu_aggregate result" where
  "with_output_schema fs g =
    (let own = np_schema (ga_props g) in
     if length fs \<noteq> length own
     then plan_err [Txt ''GpuAggregateExec: planned schema has '', Num (length fs), Txt '' fields, the spec yields '',
            Num (length own)]
     else and_then (same_types (zip fs own)) (\<lambda>_.
       Inr (g\<lparr>ga_props := \<lparr>np_schema = fs, np_partitions = 1\<rparr>\<rparr>)))"

definition vector_try_new :: "plan \<Rightarrow> nat \<Rightarrow> f32 list \<Rightarrow> distance_metric \<Rightarrow> string \<Rightarrow> backend_kind
    \<Rightarrow> gpu_vector result" where
  "vector_try_new input column query metric output_name target =
     and_then (column_type (plan_schema input) column ''GpuVectorDistanceExec'') (\<lambda>dt.
     and_then (ok_or (vector_dimension dt) (Err (DataFusion (DfPlan [Txt ''GpuVectorDistanceExec: column '', Num column,
                 Txt '' has type '', Ty dt, Txt ''; expected FixedSizeList<Float32>''])))) (\<lambda>dim.
     if length query \<noteq> dim
     then plan_err [Txt ''GpuVectorDistanceExec: query has '', Num (length query),
            Txt '' dimensions but the column has '', Num dim]
     else Inr \<lparr>gv_column = column, gv_query = query, gv_metric = metric, gv_output_name = output_name,
            gv_props = \<lparr>np_schema = plan_schema input @ [Field output_name Float32 True],
                        np_partitions = partition_count input\<rparr>,
            gv_config = config_new target\<rparr>))"

section \<open>New children\<close>

text \<open>What DataFusion computes: the properties of one of its nodes over new children, and the texts
  of expressions and operators.\<close>

record df_ops =
  df_props :: "plan \<Rightarrow> plan list \<Rightarrow> node_props result"
  df_show :: "pexpr \<Rightarrow> string"
  df_show_op :: "df_operator \<Rightarrow> string"

definition wrong_children :: "string \<Rightarrow> string \<Rightarrow> plan list \<Rightarrow> 'a result" where
  "wrong_children node expects cs = plan_err [Txt node, Txt '' expects '', Txt expects, Txt '', got '', Num (length cs)]"

definition filter_rebuild :: "gpu_filter \<Rightarrow> plan \<Rightarrow> gpu_filter result" where
  "filter_rebuild g input =
     map_res (\<lambda>g'. g'\<lparr>gf_config := gf_config g\<rparr>)
       (filter_try_new input (gf_predicate g) (gf_projection g) (ec_target (gf_config g)))"

definition join_rebuild :: "gpu_join \<Rightarrow> plan \<Rightarrow> plan \<Rightarrow> gpu_join result" where
  "join_rebuild g left right =
     and_then (join_try_new left right (gj_left_key g) (gj_right_key g) (ec_target (gj_config g))) (\<lambda>g'.
     map_res (\<lambda>g'. g'\<lparr>gj_config := gj_config g\<rparr>) (with_projection left right (gj_projection g) g'))"

definition aggregate_rebuild :: "gpu_aggregate \<Rightarrow> plan \<Rightarrow> gpu_aggregate result" where
  "aggregate_rebuild g input =
     and_then (aggregate_try_new input (ga_spec g) (ec_target (ga_config g))) (\<lambda>g'.
     map_res (\<lambda>g'. g'\<lparr>ga_config := ga_config g\<rparr>) (with_output_schema (np_schema (ga_props g)) g'))"

definition vector_rebuild :: "gpu_vector \<Rightarrow> plan \<Rightarrow> gpu_vector result" where
  "vector_rebuild g input =
     map_res (\<lambda>g'. g'\<lparr>gv_config := gv_config g\<rparr>)
       (vector_try_new input (gv_column g) (gv_query g) (gv_metric g) (gv_output_name g) (ec_target (gv_config g)))"

fun with_new_children :: "df_ops \<Rightarrow> plan \<Rightarrow> plan list \<Rightarrow> plan result" where
  "with_new_children D (GpuFilterExec i g) cs = (case cs of
     [i'] \<Rightarrow> map_res (GpuFilterExec i') (filter_rebuild g i')
   | _ \<Rightarrow> wrong_children ''GpuFilterExec'' ''1 child'' cs)"
| "with_new_children D (GpuHashJoinExec l r g) cs = (case cs of
     [l', r'] \<Rightarrow> map_res (GpuHashJoinExec l' r') (join_rebuild g l' r')
   | _ \<Rightarrow> wrong_children ''GpuHashJoinExec'' ''2 children'' cs)"
| "with_new_children D (GpuAggregateExec i g) cs = (case cs of
     [i'] \<Rightarrow> map_res (GpuAggregateExec i') (aggregate_rebuild g i')
   | _ \<Rightarrow> wrong_children ''GpuAggregateExec'' ''1 child'' cs)"
| "with_new_children D (GpuVectorDistanceExec i g) cs = (case cs of
     [i'] \<Rightarrow> map_res (GpuVectorDistanceExec i') (vector_rebuild g i')
   | _ \<Rightarrow> wrong_children ''GpuVectorDistanceExec'' ''1 child'' cs)"
| "with_new_children D p cs = and_then (df_props D p cs) (\<lambda>pr. case (p, cs) of
     (FilterExec i e js _, [i']) \<Rightarrow> Inr (FilterExec i' e js pr)
   | (ProjectionExec i es _, [i']) \<Rightarrow> Inr (ProjectionExec i' es pr)
   | (HashJoinExec l r j _, [l', r']) \<Rightarrow> Inr (HashJoinExec l' r' j pr)
   | (SortMergeJoinExec l r j _, [l', r']) \<Rightarrow> Inr (SortMergeJoinExec l' r' j pr)
   | (SortExec i k n _, [i']) \<Rightarrow> Inr (SortExec i' k n pr)
   | (RepartitionExec i k _, [i']) \<Rightarrow> Inr (RepartitionExec i' k pr)
   | (CoalescePartitionsExec i _, [i']) \<Rightarrow> Inr (CoalescePartitionsExec i' pr)
   | (AggregateExec i a _, [i']) \<Rightarrow> Inr (AggregateExec i' a pr)
   | (OtherExec n _ _, _) \<Rightarrow> Inr (OtherExec n cs pr)
   | _ \<Rightarrow> df_fail (DfInternal [Txt ''wrong number of children'']))"

section \<open>The process-wide backend\<close>

text \<open>\<open>#[error(...)]\<close> of the engine's own variants; the texts of the wrapped errors are an argument.\<close>

definition error_text :: "(engine_error \<Rightarrow> message) \<Rightarrow> engine_error \<Rightarrow> message" where
  "error_text inner e = (case e of
      Io (IoError k m) \<Rightarrow> Txt ''I/O error: '' # m
    | Allocation bytes align d \<Rightarrow> [Txt ''allocation of '', Num bytes, Txt '' bytes (align '', Num align, Txt '') failed: ''] @ d
    | Device b d \<Rightarrow> [Txt (as_str b), Txt '' device error: ''] @ d
    | Execution d \<Rightarrow> Txt ''execution error: '' # d
    | Plan d \<Rightarrow> Txt ''plan error: '' # d
    | Format d \<Rightarrow> Txt ''format error: '' # d
    | Unsupported feature d \<Rightarrow> [Txt ''unsupported: '', Txt feature, Txt '' (''] @ d @ [Txt '')'']
    | _ \<Rightarrow> inner e)"

text \<open>The slot \<open>LOCAL\<close> keeps the first selection, the failed one included.\<close>

type_synonym 'b local_slot = "(message + 'b) option"

definition local_backend :: "(engine_error \<Rightarrow> message) \<Rightarrow> engine_error + 'b \<Rightarrow> 'b local_slot
    \<Rightarrow> (engine_error + 'b) \<times> 'b local_slot" where
  "local_backend inner selected slot =
    (let v = (case slot of Some v \<Rightarrow> v | None \<Rightarrow> map_err (error_text inner) selected) in
     (map_err (\<lambda>m. Execution (Txt ''backend selection failed: '' # m)) v, Some v))"

definition init_local_backend :: "(engine_error \<Rightarrow> message) \<Rightarrow> engine_error + 'b \<Rightarrow> engine_error + 'b
    \<Rightarrow> 'b local_slot \<Rightarrow> (engine_error + 'b) \<times> 'b local_slot" where
  "init_local_backend inner requested from_env slot = (case slot of
      Some v \<Rightarrow> (Inl (Execution [Txt ''the process backend was already selected; init_local_backend must '',
                    Txt ''run before the first local_backend() call'']), slot)
    | None \<Rightarrow> local_backend inner from_env (Some (map_err (error_text inner) requested)))"

section \<open>Execution\<close>

text \<open>The operator of a partition: the explicit backend or the local one; the counters are registered
  with the hub once per node.\<close>

definition config_operator :: "('w, 't, 'd) gpu_backend option \<Rightarrow> ('w, 't, 'd) gpu_backend result \<Rightarrow> string
    \<Rightarrow> exec_config \<Rightarrow> hub \<Rightarrow> 'w \<Rightarrow> ('w, 't, 'd) gpu_operator result \<times> exec_config \<times> hub \<times> 'w" where
  "config_operator explicit_be local_be name cfg hub w =
    (case (case explicit_be of Some b \<Rightarrow> Inr b | None \<Rightarrow> into_df local_be) of
       Inl e \<Rightarrow> (Inl e, cfg, hub, w)
     | Inr b \<Rightarrow>
       (let (cfg, hub) = (if ec_telemetry cfg \<and> ec_stats cfg = None
              then (case register_operator name (ec_target cfg) hub of (s, hub') \<Rightarrow> (cfg\<lparr>ec_stats := Some s\<rparr>, hub'))
              else (cfg, hub));
            stats = (if ec_telemetry cfg then ec_stats cfg else None);
            (r, w) = operator_new b stats w in
        (into_df r, cfg, hub, w)))"

text \<open>A stream: the items in order, each with the time its processing takes.\<close>

type_synonym batch_stream = "(nat \<times> batch result) list"

fun map_stream :: "(nat \<Rightarrow> batch \<Rightarrow> ('s, batch) call) \<Rightarrow> batch_stream \<Rightarrow> 's \<Rightarrow> batch result list \<times> 's" where
  "map_stream f [] st = ([], st)"
| "map_stream f ((t, Inl e) # items) st = (let (rs, st) = map_stream f items st in (Inl e # rs, st))"
| "map_stream f ((t, Inr b) # items) st =
    (let (r, st) = f t b st; (rs, st) = map_stream f items st in (into_df r # rs, st))"

definition filter_execute :: "arrow_ops \<Rightarrow> ('w, 't, 'd) gpu_backend \<Rightarrow> gpu_filter \<Rightarrow> batch_stream
    \<Rightarrow> ('w, 't, 'd) gpu_operator \<Rightarrow> batch result list \<times> ('w, 't, 'd) gpu_operator" where
  "filter_execute A B g = map_stream (\<lambda>t b. op_filter_project A B t b (gf_predicate g) (gf_projection g))"

definition vector_execute :: "arrow_ops \<Rightarrow> ('w, 't, 'd) gpu_backend \<Rightarrow> gpu_vector \<Rightarrow> batch_stream
    \<Rightarrow> ('w, 't, 'd) gpu_operator \<Rightarrow> batch result list \<times> ('w, 't, 'd) gpu_operator" where
  "vector_execute A B g = map_stream (\<lambda>t b.
     op_vector_distance A B t b (gv_column g) (gv_query g) (gv_metric g) (gv_output_name g))"

definition aggregate_execute :: "arrow_ops \<Rightarrow> ('w, 't, 'd) gpu_backend \<Rightarrow> gpu_aggregate \<Rightarrow> field list \<Rightarrow> nat
    \<Rightarrow> batch list result \<Rightarrow> nat \<Rightarrow> ('w, 't, 'd) gpu_operator \<Rightarrow> batch result list \<times> ('w, 't, 'd) gpu_operator" where
  "aggregate_execute A B g input_schema part collected elapsed st =
    (if part \<noteq> 0
     then ([df_fail (DfInternal [Txt ''GpuAggregateExec has a single output partition, got request for '', Num part])], st)
     else case and_then collected (\<lambda>bs. arrow_df (a_concat A input_schema bs)) of
       Inl e \<Rightarrow> ([Inl e], st)
     | Inr all \<Rightarrow> (case op_aggregate A B elapsed all (ga_spec g) st of (r, st') \<Rightarrow>
         ([and_then (into_df r) (\<lambda>out. arrow_df (a_try_new A (np_schema (ga_props g)) (columns out)))], st')))"

text \<open>The build side of a join: collected by the first partition that asks, shared by the others.\<close>

definition build_get_or_init :: "'x \<Rightarrow> 'x option \<Rightarrow> 'x \<times> 'x option" where
  "build_get_or_init init slot = (case slot of Some b \<Rightarrow> (b, slot) | None \<Rightarrow> (init, Some init))"

definition collect_build :: "((i64 \<times> nat) list \<Rightarrow> (i64 \<times> nat) list) \<Rightarrow> arrow_ops \<Rightarrow> field list \<Rightarrow> nat
    \<Rightarrow> batch list result \<Rightarrow> join_build result" where
  "collect_build ord A right_schema right_key collected =
     and_then collected (\<lambda>bs.
     and_then (arrow_df (a_concat A right_schema bs)) (\<lambda>b.
     into_df (join_build_new ord b right_key)))"

fun shared_fault :: "fault \<Rightarrow> fault" where
  "shared_fault (Err (DataFusion e)) = Err (DataFusion (Shared e))"
| "shared_fault f = f"

definition join_execute :: "arrow_ops \<Rightarrow> ('w, 't, 'd) gpu_backend \<Rightarrow> gpu_join \<Rightarrow> join_build result \<Rightarrow> batch_stream
    \<Rightarrow> ('w, 't, 'd) gpu_operator \<Rightarrow> batch result list \<times> ('w, 't, 'd) gpu_operator" where
  "join_execute A B g build items st = (case build of
      Inl e \<Rightarrow> ([Inl (shared_fault e)], st)
    | Inr b \<Rightarrow> map_stream (\<lambda>t left. op_hash_join A B t left b (gj_left_key g) (gj_projection g)) items st)"

section \<open>The text of the nodes\<close>

text \<open>\<open>DisplayAs\<close>; \<open>fmt_f64\<close> renders a float as \<open>{v:?}\<close> does.\<close>

datatype display_format = DefaultFormat | TreeRender

definition show_i64 :: "i64 \<Rightarrow> string" where
  "show_i64 v = (if sint v < 0 then ''-'' @ show_nat (nat (- sint v)) else show_nat (nat (sint v)))"

definition column_name :: "field list \<Rightarrow> nat \<Rightarrow> string" where
  "column_name fs i = (if i < length fs then field_name (fs ! i) else ''col'' @ show_nat i)"

fun display_literal :: "(f64 \<Rightarrow> string) \<Rightarrow> literal \<Rightarrow> string" where
  "display_literal fmt_f64 (LInt64 v) = show_i64 v"
| "display_literal fmt_f64 (LFloat64 v) = fmt_f64 v"

fun display_predicate :: "(f64 \<Rightarrow> string) \<Rightarrow> field list \<Rightarrow> predicate \<Rightarrow> string" where
  "display_predicate fmt_f64 fs (Compare column op lit) =
     column_name fs column @ '' '' @ symbol op @ '' '' @ display_literal fmt_f64 lit"
| "display_predicate fmt_f64 fs (And l r) =
     display_predicate fmt_f64 fs l @ '' AND '' @ display_predicate fmt_f64 fs r"

definition join_strings :: "string list \<Rightarrow> string" where
  "join_strings ss = (case ss of [] \<Rightarrow> [] | s # rest \<Rightarrow> s @ concat (map (\<lambda>t. '', '' @ t) rest))"

definition display_aggregate :: "field list \<Rightarrow> aggregate_spec \<Rightarrow> string" where
  "display_aggregate fs spec = ''group_by=['' @ column_name fs (group_by spec) @ ''], aggr=['' @
     join_strings (map (\<lambda>(f, c). agg_name f @ ''('' @ column_name fs c @ '')'') (aggregates spec)) @ '']''"

definition display_projection :: "field list \<Rightarrow> nat list \<Rightarrow> string" where
  "display_projection fs js = join_strings (map (column_name fs) js)"

definition filter_fmt_as :: "(f64 \<Rightarrow> string) \<Rightarrow> display_format \<Rightarrow> plan \<Rightarrow> gpu_filter \<Rightarrow> string" where
  "filter_fmt_as fmt_f64 t input g =
    (let fs = plan_schema input; target = as_str (ec_target (gf_config g));
         p = display_predicate fmt_f64 fs (gf_predicate g) in
     case t of
       DefaultFormat \<Rightarrow> ''GpuFilterExec['' @ target @ '']: '' @ p @ '', projection=['' @
         display_projection fs (gf_projection g) @ '']''
     | TreeRender \<Rightarrow> ''backend='' @ target @ [newline] @ ''predicate='' @ p)"

definition join_fmt_as :: "display_format \<Rightarrow> plan \<Rightarrow> plan \<Rightarrow> gpu_join \<Rightarrow> string" where
  "join_fmt_as t left right g =
    (let on = column_name (plan_schema left) (gj_left_key g) @ '' = '' @
           column_name (plan_schema right) (gj_right_key g);
         projection = (case gj_projection g of
             Some _ \<Rightarrow> '', projection=['' @ join_strings (map field_name (np_schema (gj_props g))) @ '']''
           | None \<Rightarrow> []);
         target = as_str (ec_target (gj_config g)) in
     case t of
       DefaultFormat \<Rightarrow> ''GpuHashJoinExec['' @ target @ '']: join_type=Inner, on=['' @ on @ '']'' @ projection
     | TreeRender \<Rightarrow> ''backend='' @ target @ [newline] @ ''on='' @ on)"

definition aggregate_fmt_as :: "display_format \<Rightarrow> plan \<Rightarrow> gpu_aggregate \<Rightarrow> string" where
  "aggregate_fmt_as t input g =
    (let detail = display_aggregate (plan_schema input) (ga_spec g); target = as_str (ec_target (ga_config g)) in
     case t of
       DefaultFormat \<Rightarrow> ''GpuAggregateExec['' @ target @ '']: '' @ detail
     | TreeRender \<Rightarrow> ''backend='' @ target @ [newline] @ detail)"

definition vector_fmt_as :: "display_format \<Rightarrow> plan \<Rightarrow> gpu_vector \<Rightarrow> string" where
  "vector_fmt_as t input g =
    (let name = column_name (plan_schema input) (gv_column g); target = as_str (ec_target (gv_config g)) in
     case t of
       DefaultFormat \<Rightarrow> ''GpuVectorDistanceExec['' @ target @ '']: '' @ metric_name (gv_metric g) @ ''('' @ name @
         '') AS '' @ gv_output_name g @ '', dim='' @ show_nat (length (gv_query g))
     | TreeRender \<Rightarrow> ''backend='' @ target @ [newline] @ ''metric='' @ metric_name (gv_metric g) @ [newline] @
         ''column='' @ name)"

section \<open>The distance functions\<close>

fun distance_udf_name :: "distance_metric \<Rightarrow> string" where
  "distance_udf_name L2 = ''l2_distance''"
| "distance_udf_name Cosine = ''cosine_distance''"

definition distance_metric_for :: "string \<Rightarrow> distance_metric option" where
  "distance_metric_for name = (if name = ''l2_distance'' then Some L2
     else if name = ''cosine_distance'' then Some Cosine else None)"

fun list_element :: "data_type \<Rightarrow> field option" where
  "list_element (ListOf f) = Some f"
| "list_element (LargeListOf f) = Some f"
| "list_element (FixedSizeList f n) = Some f"
| "list_element _ = None"

fun fixed_dimension :: "data_type \<Rightarrow> int option" where
  "fixed_dimension (FixedSizeList f n) = Some n"
| "fixed_dimension _ = None"

definition udf_check_vector :: "(data_type \<Rightarrow> bool) \<Rightarrow> string \<Rightarrow> data_type \<Rightarrow> unit result" where
  "udf_check_vector is_numeric name dt =
     and_then (ok_or (list_element dt)
       (Err (DataFusion (DfPlan [Txt name, Txt '': expected a list of numbers, got '', Ty dt])))) (\<lambda>element.
     if \<not> is_numeric (field_type element)
     then plan_err [Txt name, Txt '': vector elements must be numeric, got '', Ty (field_type element)]
     else Inr ())"

text \<open>\<open>is_numeric\<close> is Arrow's classification of the types.\<close>

definition udf_coerce_types :: "(data_type \<Rightarrow> bool) \<Rightarrow> distance_metric \<Rightarrow> data_type list \<Rightarrow> data_type list result" where
  "udf_coerce_types is_numeric metric arg_types =
    (let name = distance_udf_name metric in
     if length arg_types \<noteq> 2
     then plan_err [Txt name, Txt '' takes 2 arguments, got '', Num (length arg_types)]
     else and_then (collect_res (udf_check_vector is_numeric name) arg_types) (\<lambda>_.
     case List.map_filter fixed_dimension arg_types of
       [] \<Rightarrow> plan_err [Txt name, Txt '': at least one argument must be a FixedSizeList so the '', Txt ''dimension is known'']
     | dim # dims \<Rightarrow>
         if list_ex (\<lambda>d. d \<noteq> dim) (dim # dims)
         then plan_err [Txt name, Txt '': vectors have different dimensions'']
         else Inr (map (\<lambda>dt. case dt of
             FixedSizeList f n \<Rightarrow> if field_type f = Float32 then dt else FixedSizeList (Field ''item'' Float32 True) dim
           | _ \<Rightarrow> FixedSizeList (Field ''item'' Float32 True) dim) arg_types)))"

datatype columnar_value = ColArray array | ColScalar scalar

fun scalar_type :: "scalar \<Rightarrow> data_type" where
  "scalar_type (SInt64 _) = Int64"
| "scalar_type (SFloat64 _) = Float64"
| "scalar_type (SFloat32 _) = Float32"
| "scalar_type (SFixedSizeList a) = arr_type a"
| "scalar_type (SOther n) = OtherType n"

abbreviation df_execution :: "message \<Rightarrow> 'a result" where
  "df_execution m \<equiv> df_fail (DfExecution m)"

fun fixed_size_list :: "string \<Rightarrow> columnar_value \<Rightarrow> (array \<times> bool) result" where
  "fixed_size_list name (ColArray a) = (case arr_type a of
      FixedSizeList _ _ \<Rightarrow> Inr (a, False)
    | dt \<Rightarrow> df_execution [Txt name, Txt '': expected FixedSizeList, got '', Ty dt])"
| "fixed_size_list name (ColScalar (SFixedSizeList a)) = Inr (a, True)"
| "fixed_size_list name (ColScalar other) = df_execution [Txt name, Txt '': expected FixedSizeList, got '', Ty (scalar_type other)]"

text \<open>The dimension of the list, once its elements are known to be \<open>Float32\<close>; the values are read row by
  row from the cells.\<close>

definition float_values :: "string \<Rightarrow> array \<Rightarrow> nat result" where
  "float_values name a = (case arr_type a of
      FixedSizeList f n \<Rightarrow>
        if field_type f \<noteq> Float32
        then df_execution [Txt name, Txt '': vector elements are '', Ty (field_type f), Txt '', expected Float32'']
        else if n < 0 then df_execution [Txt name, Txt '': negative list size''] else Inr (nat n)
    | _ \<Rightarrow> Inl (Panic ''not a list''))"

definition udf_distance :: "distance_metric \<Rightarrow> array \<times> bool \<Rightarrow> array \<times> bool \<Rightarrow> nat \<Rightarrow> f32 option result" where
  "udf_distance metric a b row =
    (let ra = (if snd a then 0 else row); rb = (if snd b then 0 else row) in
     if length (cells (fst a)) \<le> ra \<or> length (cells (fst b)) \<le> rb then Inl (Panic ''index out of bounds'')
     else Inr (case (cells (fst a) ! ra, cells (fst b) ! rb) of
         (Some va, Some vb) \<Rightarrow> Some (distance metric (cell_vec va) (cell_vec vb))
       | _ \<Rightarrow> None))"

definition udf_invoke :: "distance_metric \<Rightarrow> columnar_value list \<Rightarrow> nat \<Rightarrow> columnar_value result" where
  "udf_invoke metric args rows =
    (let name = distance_udf_name metric in
     case args of
       [a, b] \<Rightarrow>
         and_then (fixed_size_list name a) (\<lambda>a.
         and_then (fixed_size_list name b) (\<lambda>b.
         and_then (float_values name (fst a)) (\<lambda>a_dim.
         and_then (float_values name (fst b)) (\<lambda>b_dim.
         if a_dim \<noteq> b_dim
         then df_execution [Txt name, Txt '': vectors have '', Num a_dim, Txt '' and '', Num b_dim, Txt '' dimensions'']
         else if snd a \<and> snd b then map_res (\<lambda>d. ColScalar (SFloat32 d)) (udf_distance metric a b 0)
         else map_res (\<lambda>ds. ColArray (float32_array ds)) (collect_res (udf_distance metric a b) [0..<rows])))))
     | _ \<Rightarrow> df_execution [Txt name, Txt '' takes 2 arguments, got '', Num (length args)])"

definition i32_max :: nat where "i32_max = 2 ^ 31 - 1"

text \<open>\<open>FixedSizeListArray::new\<close> has one row per \<open>size\<close> values, none when the size is 0; it panics when
  the values are no multiple of the size.\<close>

definition query_literal :: "f32 list \<Rightarrow> scalar result" where
  "query_literal query =
    (if length query \<le> i32_max
     then Inr (SFixedSizeList \<lparr>arr_type = FixedSizeList (Field ''item'' Float32 True) (int (length query)),
            cells = (if query = [] then [] else [Some (CVec (map (Pair True) query))])\<rparr>)
     else Inl (Panic ''values are no multiple of the size''))"

text \<open>A row of a list of size \<open>n\<close> has \<open>n\<close> elements.\<close>

definition literal_query :: "scalar \<Rightarrow> f32 list option" where
  "literal_query value = (case value of
      SFixedSizeList a \<Rightarrow> (case (arr_type a, cells a) of
          (FixedSizeList f n, [Some (CVec v)]) \<Rightarrow>
            if field_type f = Float32 \<and> list_all fst v \<and> n = int (length v) then Some (map snd v) else None
        | _ \<Rightarrow> None)
    | _ \<Rightarrow> None)"

end
