(* ===== verification/Placement_Rule.thy ===== *)
theory Placement_Rule
  imports Exec_Nodes
begin

text \<open>
  The placement rule (\<open>crates/oxidelake-planner/src/rule.rs\<close>): DataFusion nodes whose work the device
  kernels implement become OxideLake's nodes, every other node stays, with the reason noted in the
  telemetry hub; and the resolution of the placement target (\<open>target.rs\<close>).

  The rule's optional hub is the state of its calls.  \<open>TreeNode::transform_up\<close> is DataFusion's traversal:
  children first, a node with changed children is rebuilt, then the node is rewritten.
\<close>

type_synonym 'a planning = "(hub option, 'a) call"

section \<open>Expressions\<close>

fun column_index :: "pexpr \<Rightarrow> nat option" where
  "column_index (EColumn n i) = Some i"
| "column_index _ = None"

fun flip :: "comparison \<Rightarrow> comparison" where
  "flip Eq = Eq"
| "flip Lt = Gt"
| "flip LtEq = GtEq"
| "flip Gt = Lt"
| "flip GtEq = LtEq"

fun comparison_of :: "df_operator \<Rightarrow> comparison option" where
  "comparison_of OpEq = Some Eq"
| "comparison_of OpLt = Some Lt"
| "comparison_of OpLtEq = Some LtEq"
| "comparison_of OpGt = Some Gt"
| "comparison_of OpGtEq = Some GtEq"
| "comparison_of _ = None"

fun literal_of :: "pexpr \<Rightarrow> literal option" where
  "literal_of (ELiteral (SInt64 (Some v))) = Some (LInt64 v)"
| "literal_of (ELiteral (SFloat64 (Some v))) = Some (LFloat64 v)"
| "literal_of _ = None"

definition compare_operands :: "pexpr \<Rightarrow> pexpr \<Rightarrow> comparison \<Rightarrow> (nat \<times> literal \<times> comparison) option" where
  "compare_operands l r op = (case (column_index l, literal_of r) of
      (Some c, Some lit) \<Rightarrow> Some (c, lit, op)
    | _ \<Rightarrow> (case (literal_of l, column_index r) of
        (Some lit, Some c) \<Rightarrow> Some (c, lit, flip op)
      | _ \<Rightarrow> None))"

fun try_lower_predicate :: "df_ops \<Rightarrow> field list \<Rightarrow> pexpr \<Rightarrow> message + predicate" where
  "try_lower_predicate D fs (EBinary l op r) =
    (if op = OpAnd then
       and_then (try_lower_predicate D fs l) (\<lambda>p.
       and_then (try_lower_predicate D fs r) (\<lambda>q. Inr (And p q)))
     else case comparison_of op of
       None \<Rightarrow> Inl [Txt ''`'', Txt (df_show_op D op), Txt ''` is not one of the comparisons the device kernels implement '',
                   Txt ''(=, !=, <, <=, >, >=)'']
     | Some cmp \<Rightarrow> (case compare_operands l r cmp of
         None \<Rightarrow> Inl [Txt ''`'', Txt (df_show D (EBinary l op r)), Txt ''` does not compare a column against an Int64 or Float64 literal'']
       | Some (column, lit, cmp) \<Rightarrow>
           if length fs \<le> column then Inl [Txt ''column '', Num column, Txt '' is out of range for the input schema'']
           else if field_type (fs ! column) \<noteq> literal_data_type lit
           then Inl [Txt ''`'', Txt (field_name (fs ! column)), Txt ''` is '', Ty (field_type (fs ! column)), Txt '' and the literal is '',
                  Ty (literal_data_type lit), Txt ''; the kernels compare a column against a literal of its own type'']
           else Inr (Compare column cmp lit)))"
| "try_lower_predicate D fs e = Inl [Txt ''`'', Txt (df_show D e), Txt ''` is not a binary comparison; the v1 grammar is '',
     Txt ''column <op> literal, conjoined with AND'']"

definition lower_predicate :: "df_ops \<Rightarrow> field list \<Rightarrow> pexpr \<Rightarrow> predicate option" where
  "lower_predicate D fs e = (case try_lower_predicate D fs e of Inr p \<Rightarrow> Some p | Inl m \<Rightarrow> None)"

section \<open>Aggregates\<close>

text \<open>A refusal is a message; an index out of range panics.\<close>

type_synonym 'a lowering = "(message + 'a) result"

definition aggregate_function_of :: "string \<Rightarrow> aggregate_function option" where
  "aggregate_function_of name = (if name = ''sum'' then Some AggSum else if name = ''count'' then Some AggCount
     else if name = ''min'' then Some AggMin else if name = ''max'' then Some AggMax else None)"

definition lower_aggregate_expr :: "field list \<Rightarrow> agg_expr \<Rightarrow> (aggregate_function \<times> nat) lowering" where
  "lower_aggregate_expr fs e = (case aggregate_function_of (ae_fun e) of
      None \<Rightarrow> Inr (Inl [Txt ''`'', Txt (ae_fun e), Txt ''` is not one of the aggregates the device kernels implement '',
                       Txt ''(sum, count, min, max)''])
    | Some f \<Rightarrow>
        if ae_distinct e then Inr (Inl [Txt ''DISTINCT is not implemented for `'', Txt (ae_fun e), Txt ''`''])
        else (case ae_args e of
          [arg] \<Rightarrow> (case column_index arg of
              None \<Rightarrow> Inr (Inl [Txt ''`'', Txt (ae_fun e), Txt ''` aggregates an expression, not a plain column''])
            | Some column \<Rightarrow> map_res (\<lambda>fd.
                if field_type fd \<noteq> Int64 \<and> field_type fd \<noteq> Float64
                then Inl [Txt ''`'', Txt (field_name fd), Txt ''` is '', Ty (field_type fd),
                       Txt ''; the device kernels aggregate Int64 and Float64'']
                else Inr (f, column)) (schema_field fs column))
        | args \<Rightarrow> Inr (Inl [Txt ''`'', Txt (ae_fun e), Txt ''` takes '', Num (length args), Txt '' arguments; the device kernels take one''])))"

fun lower_aggregates :: "field list \<Rightarrow> agg_expr list \<Rightarrow> (aggregate_function \<times> nat) list lowering" where
  "lower_aggregates fs [] = Inr (Inr [])"
| "lower_aggregates fs (e # es) = and_then (lower_aggregate_expr fs e) (\<lambda>r. case r of
     Inl why \<Rightarrow> Inr (Inl why)
   | Inr a \<Rightarrow> map_res (map_res ((#) a)) (lower_aggregates fs es))"

definition try_lower_aggregate_spec :: "plan \<Rightarrow> agg_info \<Rightarrow> aggregate_spec lowering" where
  "try_lower_aggregate_spec input agg =
    (if \<not> ag_single_set agg \<or> length (ag_group agg) \<noteq> 1 \<or> ag_null_exprs agg \<noteq> []
     then Inr (Inl [Txt ''the device kernel groups by exactly one column; this groups by '', Num (length (ag_group agg))])
     else (case column_index (fst (hd (ag_group agg))) of
       None \<Rightarrow> Inr (Inl [Txt ''the grouping key is an expression, not a plain column''])
     | Some g \<Rightarrow> and_then (schema_field (plan_schema input) g) (\<lambda>fd.
         if field_type fd \<noteq> Int64
         then Inr (Inl [Txt ''the grouping key `'', Txt (field_name fd), Txt ''` is '', Ty (field_type fd),
                Txt ''; the device kernel groups on Int64''])
         else if list_ex (\<lambda>f. f \<noteq> None) (ag_filters agg)
         then Inr (Inl [Txt ''a FILTER clause on an aggregate has no device kernel''])
         else map_res (map_res (\<lambda>as. \<lparr>group_by = g, aggregates = as\<rparr>))
                (lower_aggregates (plan_schema input) (ag_aggrs agg)))))"

definition lower_aggregate_spec :: "plan \<Rightarrow> agg_info \<Rightarrow> aggregate_spec option result" where
  "lower_aggregate_spec input agg =
     map_res (\<lambda>r. case r of Inr s \<Rightarrow> Some s | Inl m \<Rightarrow> None) (try_lower_aggregate_spec input agg)"

section \<open>Filters and projections\<close>

definition skip :: "string \<Rightarrow> message \<Rightarrow> hub option \<Rightarrow> hub option" where
  "skip node reason h = map_option (record_skip node reason) h"

text \<open>A node that stays on the CPU, with the reason noted.\<close>

definition stays :: "string \<Rightarrow> message \<Rightarrow> 'a option planning" where
  "stays node reason h = (Inr None, skip node reason h)"

definition instrument :: "hub option \<Rightarrow> exec_config \<Rightarrow> exec_config" where
  "instrument h cfg = (case h of Some _ \<Rightarrow> cfg\<lparr>ec_telemetry := True\<rparr> | None \<Rightarrow> cfg)"

definition lower_filter :: "df_ops \<Rightarrow> backend_kind \<Rightarrow> plan \<Rightarrow> pexpr \<Rightarrow> nat list option \<Rightarrow> node_props
    \<Rightarrow> plan option planning" where
  "lower_filter D target input e projection pr = (case try_lower_predicate D (plan_schema input) e of
      Inl why \<Rightarrow> stays ''FilterExec'' why
    | Inr p \<Rightarrow>
       (let js = (case projection of Some js \<Rightarrow> js | None \<Rightarrow> [0..<length (plan_schema input)]) in
        call_then (pure_call (filter_try_new input p js target)) (\<lambda>g.
        if np_schema (gf_props g) \<noteq> np_schema pr
        then stays ''FilterExec'' [Txt ''the fused schema differs from the original'']
        else (\<lambda>h. (Inr (Some (GpuFilterExec input (g\<lparr>gf_config := instrument h (gf_config g)\<rparr>))), h)))))"

fun fuse_columns :: "field list \<Rightarrow> nat list \<Rightarrow> (pexpr \<times> string) list \<Rightarrow> nat list option result" where
  "fuse_columns fs js [] = Inr (Some [])"
| "fuse_columns fs js ((e, alias) # es) = (case column_index e of
     None \<Rightarrow> Inr None
   | Some i \<Rightarrow> and_then (schema_field fs i) (\<lambda>fd.
       if field_name fd \<noteq> alias then Inr None
       else if i < length js then map_res (map_option ((#) (js ! i))) (fuse_columns fs js es)
       else Inl (Panic ''index out of bounds'')))"

definition fuse_projection :: "backend_kind \<Rightarrow> plan \<Rightarrow> (pexpr \<times> string) list \<Rightarrow> node_props
    \<Rightarrow> plan option planning" where
  "fuse_projection target input es pr = (case input of
      GpuFilterExec source g \<Rightarrow>
        call_then (pure_call (fuse_columns (plan_schema input) (gf_projection g) es)) (\<lambda>fused.
        case fused of
          None \<Rightarrow> pure_call (Inr None)
        | Some js \<Rightarrow> call_then (pure_call (filter_try_new source (gf_predicate g) js target)) (\<lambda>g'.
            if np_schema (gf_props g') \<noteq> np_schema pr then pure_call (Inr None)
            else (\<lambda>h. (Inr (Some (GpuFilterExec source (g'\<lparr>gf_config := instrument h (gf_config g')\<rparr>))), h))))
    | _ \<Rightarrow> pure_call (Inr None))"

definition passes_through :: "field list \<Rightarrow> (pexpr \<times> string) list \<Rightarrow> bool" where
  "passes_through fs es = (length es = length fs \<and>
     list_all (\<lambda>(i, e, alias). column_index e = Some i \<and> field_name (fs ! i) = alias) (enumerate 0 es))"

definition distance_call :: "pexpr \<Rightarrow> (distance_metric \<times> nat \<times> f32 list) option" where
  "distance_call e = (case e of
      EScalarFunction name [a, b] \<Rightarrow> (case distance_metric_for name of
          None \<Rightarrow> None
        | Some metric \<Rightarrow> (case (a, b) of
            (EColumn _ _, EColumn _ _) \<Rightarrow> None
          | (EColumn _ c, ELiteral v) \<Rightarrow> map_option (\<lambda>q. (metric, c, q)) (literal_query v)
          | (ELiteral v, EColumn _ c) \<Rightarrow> map_option (\<lambda>q. (metric, c, q)) (literal_query v)
          | _ \<Rightarrow> None))
    | _ \<Rightarrow> None)"

definition lower_vector_distance :: "backend_kind \<Rightarrow> plan \<Rightarrow> (pexpr \<times> string) list \<Rightarrow> node_props
    \<Rightarrow> plan option planning" where
  "lower_vector_distance target input es pr =
    (if es = [] \<or> \<not> passes_through (plan_schema input) (butlast es) then pure_call (Inr None)
     else (case distance_call (fst (last es)) of
       None \<Rightarrow> pure_call (Inr None)
     | Some (metric, column, query) \<Rightarrow>
        (case vector_try_new input column query metric (snd (last es)) target of
           Inl (Err err) \<Rightarrow> stays ''ProjectionExec'' [Txt ''the distance call is not representable'']
         | Inl (Panic m) \<Rightarrow> pure_call (Inl (Panic m))
         | Inr g \<Rightarrow>
             if np_schema (gv_props g) \<noteq> np_schema pr then pure_call (Inr None)
             else (\<lambda>h. (Inr (Some (GpuVectorDistanceExec input (g\<lparr>gv_config := instrument h (gv_config g)\<rparr>))), h)))))"

section \<open>Joins\<close>

definition indices_of :: "field list \<Rightarrow> field \<Rightarrow> nat list" where
  "indices_of full fd = filter (\<lambda>i. full ! i = fd) [0..<length full]"

text \<open>The columns of a join's projection, found by field in the full output; an ambiguous field is the
  answer \<open>Inl\<close>.\<close>

fun projected_indices :: "field list \<Rightarrow> field list \<Rightarrow> field + nat list" where
  "projected_indices full [] = Inr []"
| "projected_indices full (fd # fds) = (case indices_of full fd of
     [only] \<Rightarrow> map_res ((#) only) (projected_indices full fds)
   | _ \<Rightarrow> Inl fd)"

definition key_columns :: "field list \<Rightarrow> field list \<Rightarrow> (pexpr \<times> pexpr) list \<Rightarrow> (nat \<times> nat) option result" where
  "key_columns ls rs on = (case on of
      [(l, r)] \<Rightarrow> (case (column_index l, column_index r) of
          (Some lk, Some rk) \<Rightarrow>
            and_then (schema_field ls lk) (\<lambda>lf.
            if field_type lf \<noteq> Int64 then Inr None
            else and_then (schema_field rs rk) (\<lambda>rf.
            if field_type rf \<noteq> Int64 then Inr None else Inr (Some (lk, rk))))
        | _ \<Rightarrow> Inr None)
    | _ \<Rightarrow> Inr None)"

definition plain_inner :: "join_info \<Rightarrow> bool" where
  "plain_inner j = (ji_type j = InnerJoin \<and> ji_filter j = None \<and> ji_null_equals_nothing j \<and> length (ji_on j) = 1)"

text \<open>DataFusion builds on its left input, the device join on its right one: the sides are swapped and
  the columns are renumbered.\<close>

definition swap_index :: "nat \<Rightarrow> nat \<Rightarrow> nat \<Rightarrow> nat" where
  "swap_index bl pl i = (if i < bl then pl + i else i - bl)"

definition lower_join :: "backend_kind \<Rightarrow> plan \<Rightarrow> plan \<Rightarrow> join_info \<Rightarrow> node_props \<Rightarrow> plan option planning" where
  "lower_join target build probe j pr =
    (if \<not> plain_inner j then pure_call (Inr None)
     else (let bs = plan_schema build; ps = plan_schema probe; bl = length bs; pl = length ps in
     call_then (pure_call (key_columns bs ps (ji_on j))) (\<lambda>keys. case keys of
       None \<Rightarrow> pure_call (Inr None)
     | Some (build_key, probe_key) \<Rightarrow>
        (case (if ji_projection j \<noteq> None then projected_indices (bs @ ps) (np_schema pr) else Inr [0..<bl + pl]) of
           Inl fd \<Rightarrow> stays ''HashJoinExec'' [Txt ''the projected field `'', Txt (field_name fd), Txt ''` is ambiguous'']
         | Inr df_projection \<Rightarrow>
           (let ours = map (swap_index bl pl) df_projection in
            call_then (pure_call (and_then (join_try_new probe build probe_key build_key target)
                                    (with_projection probe build (Some ours)))) (\<lambda>g.
            if np_schema (gj_props g) \<noteq> np_schema pr
            then stays ''HashJoinExec'' [Txt ''the rewritten schema differs from the original'']
            else (\<lambda>h. (Inr (Some (GpuHashJoinExec probe build (g\<lparr>gj_config := instrument h (gj_config g)\<rparr>))), h))))))))"

definition strip_sort :: "plan \<Rightarrow> plan" where
  "strip_sort p = (case p of SortExec i k None pr \<Rightarrow> i | _ \<Rightarrow> p)"

definition lower_sort_merge_join :: "backend_kind \<Rightarrow> plan \<Rightarrow> plan \<Rightarrow> join_info \<Rightarrow> node_props
    \<Rightarrow> plan option planning" where
  "lower_sort_merge_join target l r j pr =
    (if \<not> plain_inner j then pure_call (Inr None)
     else (let left = strip_sort l; right = strip_sort r; ls = plan_schema left; rs = plan_schema right in
     if length (np_schema pr) \<noteq> length ls + length rs then pure_call (Inr None)
     else call_then (pure_call (key_columns ls rs (ji_on j))) (\<lambda>keys. case keys of
       None \<Rightarrow> pure_call (Inr None)
     | Some (lk, rk) \<Rightarrow>
        call_then (pure_call (join_try_new left right lk rk target)) (\<lambda>g.
        if np_schema (gj_props g) \<noteq> np_schema pr
        then stays ''SortMergeJoinExec'' [Txt ''the rewritten schema differs from the original'']
        else (\<lambda>h. (Inr (Some (GpuHashJoinExec left right (g\<lparr>gj_config := instrument h (gj_config g)\<rparr>))), h))))))"

section \<open>Aggregation\<close>

text \<open>The node below the exchanges between the two halves of an aggregation.\<close>

fun through_exchanges :: "plan \<Rightarrow> plan" where
  "through_exchanges (RepartitionExec i k pr) = through_exchanges i"
| "through_exchanges (CoalescePartitionsExec i pr) = through_exchanges i"
| "through_exchanges p = p"

definition coalesced :: "plan \<Rightarrow> plan" where
  "coalesced source = (if partition_count source > 1
     then CoalescePartitionsExec source \<lparr>np_schema = plan_schema source, np_partitions = 1\<rparr> else source)"

text \<open>What an aggregation is computed from: the input and spec of a single-phase node, those of the
  partial half below a final node; \<open>None\<close> where the rule does not apply.\<close>

definition aggregate_source :: "plan \<Rightarrow> agg_info \<Rightarrow> (plan \<times> agg_info) option" where
  "aggregate_source input agg = (case ag_mode agg of
      ModeSingle \<Rightarrow> Some (input, agg)
    | ModeSinglePartitioned \<Rightarrow> Some (input, agg)
    | ModeFinal \<Rightarrow> (case through_exchanges input of
          AggregateExec source partial _ \<Rightarrow>
            if ag_mode partial \<noteq> ModePartial \<or> length (ag_aggrs partial) \<noteq> length (ag_aggrs agg)
              \<or> length (ag_group partial) \<noteq> length (ag_group agg)
            then None else Some (source, partial)
        | _ \<Rightarrow> None)
    | ModeFinalPartitioned \<Rightarrow> (case through_exchanges input of
          AggregateExec source partial _ \<Rightarrow>
            if ag_mode partial \<noteq> ModePartial \<or> length (ag_aggrs partial) \<noteq> length (ag_aggrs agg)
              \<or> length (ag_group partial) \<noteq> length (ag_group agg)
            then None else Some (source, partial)
        | _ \<Rightarrow> None)
    | _ \<Rightarrow> None)"

definition lower_aggregate :: "backend_kind \<Rightarrow> plan \<Rightarrow> agg_info \<Rightarrow> node_props \<Rightarrow> plan option planning" where
  "lower_aggregate target input agg pr = (case aggregate_source input agg of
      None \<Rightarrow> pure_call (Inr None)
    | Some (source, half) \<Rightarrow>
       call_then (pure_call (try_lower_aggregate_spec source half)) (\<lambda>lowered. case lowered of
         Inl why \<Rightarrow> stays ''AggregateExec'' why
       | Inr spec \<Rightarrow>
         (let source = coalesced source in
          call_then (pure_call (aggregate_try_new source spec target)) (\<lambda>g.
          case with_output_schema (np_schema pr) g of
            Inl (Err err) \<Rightarrow> stays ''AggregateExec'' [Txt ''the output schema is not representable'']
          | Inl (Panic m) \<Rightarrow> pure_call (Inl (Panic m))
          | Inr g' \<Rightarrow> (\<lambda>h. (Inr (Some (GpuAggregateExec source (g'\<lparr>ga_config := instrument h (ga_config g')\<rparr>))), h))))))"

section \<open>The rule\<close>

text \<open>The first lowering that applies; the answer says whether the node changed.\<close>

definition or_else :: "plan option planning \<Rightarrow> (plan \<times> bool) planning \<Rightarrow> (plan \<times> bool) planning" where
  "or_else m rest = call_then m (\<lambda>r. case r of Some gpu \<Rightarrow> pure_call (Inr (gpu, True)) | None \<Rightarrow> rest)"

definition rewrite :: "df_ops \<Rightarrow> backend_kind \<Rightarrow> plan \<Rightarrow> (plan \<times> bool) planning" where
  "rewrite D target node = (case node of
      FilterExec i e js pr \<Rightarrow> or_else (lower_filter D target i e js pr)
    | ProjectionExec i es pr \<Rightarrow> (\<lambda>rest. or_else (fuse_projection target i es pr)
        (or_else (lower_vector_distance target i es pr) rest))
    | HashJoinExec l r j pr \<Rightarrow> or_else (lower_join target l r j pr)
    | SortMergeJoinExec l r j pr \<Rightarrow> or_else (lower_sort_merge_join target l r j pr)
    | AggregateExec i a pr \<Rightarrow> or_else (lower_aggregate target i a pr)
    | _ \<Rightarrow> (\<lambda>rest. rest)) (pure_call (Inr (node, False)))"

fun collect_call :: "('a \<Rightarrow> ('w, 'b) call) \<Rightarrow> 'a list \<Rightarrow> ('w, 'b list) call" where
  "collect_call f [] = pure_call (Inr [])"
| "collect_call f (x # xs) = call_then (f x) (\<lambda>y. call_then (collect_call f xs) (\<lambda>ys. pure_call (Inr (y # ys))))"

lemma collect_call_cong [fundef_cong]:
  assumes "xs = ys" and "\<And>x. x \<in> set ys \<Longrightarrow> f x = g x"
  shows "collect_call f xs = collect_call g ys"
  using assms by (induction ys arbitrary: xs) auto

lemma size_children: "c \<in> set (children p) \<Longrightarrow> size c < size p"
proof (cases p)
  case (OtherExec n cs pr)
  assume "c \<in> set (children p)"
  then have "size c \<le> size_list size cs" using OtherExec size_list_estimation' [of c cs "size c" size] by simp
  then show ?thesis using OtherExec by simp
qed auto

function transform_up :: "df_ops \<Rightarrow> (plan \<Rightarrow> (plan \<times> bool) planning) \<Rightarrow> plan \<Rightarrow> (plan \<times> bool) planning" where
  "transform_up D f p =
     call_then (collect_call (transform_up D f) (children p)) (\<lambda>cs.
     let changed = list_ex snd cs in
     call_then (if changed then pure_call (with_new_children D p (map fst cs)) else pure_call (Inr p)) (\<lambda>p'.
     call_then (f p') (\<lambda>(q, t). pure_call (Inr (q, changed \<or> t)))))"
  by pat_completeness auto
termination by (relation "measure (\<lambda>(D, f, p). size p)") (auto dest: size_children)

declare transform_up.simps [simp del]

definition optimize :: "df_ops \<Rightarrow> backend_kind \<Rightarrow> plan \<Rightarrow> plan planning" where
  "optimize D target p = (if \<not> is_gpu target then pure_call (Inr p)
     else call_then (transform_up D (rewrite D target) p) (\<lambda>t. pure_call (Inr (fst t))))"

definition rewrite_distance :: "backend_kind \<Rightarrow> plan \<Rightarrow> (plan \<times> bool) planning" where
  "rewrite_distance target node = (case node of
      ProjectionExec i es pr \<Rightarrow> or_else (lower_vector_distance target i es pr)
    | _ \<Rightarrow> (\<lambda>rest. rest)) (pure_call (Inr (node, False)))"

definition optimize_distance :: "df_ops \<Rightarrow> backend_kind \<Rightarrow> plan \<Rightarrow> plan planning" where
  "optimize_distance D target p = (if \<not> is_gpu target then pure_call (Inr p)
     else call_then (transform_up D (rewrite_distance target) p) (\<lambda>t. pure_call (Inr (fst t))))"

text \<open>The list of optimizer rules: DataFusion's own by name, with the two placement rules installed.\<close>

datatype optimizer_rule = DefaultRule string | VectorDistancePlacement | HardwarePlacement

fun rule_name :: "optimizer_rule \<Rightarrow> string" where
  "rule_name (DefaultRule n) = n"
| "rule_name VectorDistancePlacement = ''VectorDistancePlacementRule''"
| "rule_name HardwarePlacement = ''HardwarePlacementRule''"

definition physical_optimizer_rules :: "optimizer_rule list \<Rightarrow> optimizer_rule list" where
  "physical_optimizer_rules rules =
    (let before = length (takeWhile (\<lambda>r. rule_name r \<noteq> ''ProjectionPushdown'') rules) in
     take before rules @ [VectorDistancePlacement] @ drop before rules @ [HardwarePlacement])"

definition resolve_cluster_target :: "string option \<Rightarrow> engine_error + backend_kind" where
  "resolve_cluster_target value = (case map_option trim value of
      None \<Rightarrow> Inr CpuSimd
    | Some s \<Rightarrow> if s = [] then Inr CpuSimd else from_str_backend s)"

end
