(* ===== verification/Plan_Semantics.thy ===== *)
theory Plan_Semantics
  imports Placement_Rule
begin

text \<open>
  What a physical plan means: the bags of rows it may deliver.  The order of rows is not part of the
  meaning.

  A node relates the bags its children deliver to the bags it may deliver.  For OxideLake's nodes this
  relation is \<open>gpu_step\<close>, which Node_Execution shows the executions to satisfy.  DataFusion's nodes and
  expressions are third-party code: their relation \<open>df_step\<close> and their evaluation \<open>ev\<close> are arguments, and
  the locale \<open>plan_semantics\<close> states what the rule relies on of their documented behaviour.  \<open>agrees\<close> and
  \<open>near\<close> are the tolerances within which aggregates and distances are exact, as for a backend.
\<close>

section \<open>Rows\<close>

type_synonym row = "cell option list"

definition batch_rows :: "batch \<Rightarrow> row list" where
  "batch_rows b = map (\<lambda>r. map (\<lambda>c. cells c ! r) (columns b)) [0..<num_rows b]"

definition column_rows :: "array list \<Rightarrow> row list" where
  "column_rows cs = map (\<lambda>r. map (\<lambda>c. cells c ! r) cs) [0..<new_rows cs]"

definition rows_of :: "batch list \<Rightarrow> row multiset" where
  "rows_of bs = mset (concat (map batch_rows bs))"

definition batches_of :: "field list \<Rightarrow> batch list \<Rightarrow> bool" where
  "batches_of fs bs = list_all (\<lambda>b. batch_ok b \<and> schema b = fs) bs"

fun pred_on_row :: "predicate \<Rightarrow> row \<Rightarrow> bool option" where
  "pred_on_row (Compare i op lit) r = map_option (\<lambda>c. compare_keys op (cell_key c) (literal_key lit)) (r ! i)"
| "pred_on_row (And p q) r = kleene_and (pred_on_row p r) (pred_on_row q r)"

definition pick :: "nat list \<Rightarrow> row \<Rightarrow> row" where
  "pick js r = map ((!) r) js"

text \<open>All pairs of two bags that match, combined.\<close>

definition join_bag :: "('a \<Rightarrow> 'b \<Rightarrow> bool) \<Rightarrow> ('a \<Rightarrow> 'b \<Rightarrow> 'c) \<Rightarrow> 'a multiset \<Rightarrow> 'b multiset \<Rightarrow> 'c multiset" where
  "join_bag P f R S = sum_mset (image_mset (\<lambda>x. image_mset (f x) (filter_mset (P x) S)) R)"

definition keys_match :: "nat \<Rightarrow> nat \<Rightarrow> row \<Rightarrow> row \<Rightarrow> bool" where
  "keys_match lk rk x y = (x ! lk \<noteq> None \<and> x ! lk = y ! rk)"

definition join_rows :: "nat \<Rightarrow> nat \<Rightarrow> nat list \<Rightarrow> row multiset \<Rightarrow> row multiset \<Rightarrow> row multiset" where
  "join_rows lk rk js = join_bag (keys_match lk rk) (\<lambda>x y. pick js (x @ y))"

text \<open>The aggregates of a bag of rows, computed from some order of the rows.\<close>

definition agg_rows :: "(batch \<Rightarrow> batch \<Rightarrow> bool) \<Rightarrow> field list \<Rightarrow> aggregate_spec \<Rightarrow> row multiset \<Rightarrow> row multiset \<Rightarrow> bool" where
  "agg_rows agrees fs spec R R' \<longleftrightarrow> (\<exists>b keys r out. batches_of fs [b] \<and> rows_of [b] = R \<and>
     key_column b (group_by spec) keys \<and> aggregate_result b keys spec = Inr r \<and> agrees r out \<and> R' = mset (column_rows (columns out)))"

text \<open>A column appended to every row, within the tolerance of the given values.\<close>

definition appended_rows :: "(array \<Rightarrow> array \<Rightarrow> bool) \<Rightarrow> (batch \<Rightarrow> array) \<Rightarrow> string \<Rightarrow> field list
    \<Rightarrow> row multiset \<Rightarrow> row multiset \<Rightarrow> bool" where
  "appended_rows near exact name fs R R' \<longleftrightarrow> (\<exists>bs bs'. batches_of fs bs \<and> rows_of bs = R \<and> R' = rows_of bs' \<and>
     list_all2 (\<lambda>b b'. \<exists>c. near (exact b) c \<and> b' = append_column b name c) bs bs')"

text \<open>The rows of a schema.\<close>

definition row_ok :: "field list \<Rightarrow> row \<Rightarrow> bool" where
  "row_ok fs r = list_all2 (\<lambda>f c. case c of None \<Rightarrow> field_nullable f | Some v \<Rightarrow> cell_ok (field_type f) v) fs r"

definition rows_ok :: "field list \<Rightarrow> row multiset \<Rightarrow> bool" where
  "rows_ok fs R = (\<forall>r \<in> set_mset R. row_ok fs r)"

section \<open>Plans\<close>

fun gpu_node :: "plan \<Rightarrow> bool" where
  "gpu_node (GpuFilterExec i g) = True"
| "gpu_node (GpuHashJoinExec l r g) = True"
| "gpu_node (GpuAggregateExec i g) = True"
| "gpu_node (GpuVectorDistanceExec i g) = True"
| "gpu_node _ = False"

definition selected_columns :: "nat list option \<Rightarrow> nat \<Rightarrow> nat list" where
  "selected_columns js n = (case js of Some js \<Rightarrow> js | None \<Rightarrow> [0..<n])"

fun gpu_step :: "(batch \<Rightarrow> batch \<Rightarrow> bool) \<Rightarrow> (array \<Rightarrow> array \<Rightarrow> bool) \<Rightarrow> plan \<Rightarrow> row multiset list \<Rightarrow> row multiset \<Rightarrow> bool" where
  "gpu_step agrees near (GpuFilterExec i g) [R] R' \<longleftrightarrow> rows_ok (plan_schema i) R \<and>
     R' = image_mset (pick (gf_projection g)) (filter_mset (\<lambda>r. pred_on_row (gf_predicate g) r = Some True) R)"
| "gpu_step agrees near (GpuHashJoinExec l r g) [R, S] R' \<longleftrightarrow> rows_ok (plan_schema l) R \<and> rows_ok (plan_schema r) S \<and>
     R' = join_rows (gj_left_key g) (gj_right_key g)
       (selected_columns (gj_projection g) (length (plan_schema l) + length (plan_schema r))) R S"
| "gpu_step agrees near (GpuAggregateExec i g) [R] R' \<longleftrightarrow> agg_rows agrees (plan_schema i) (ga_spec g) R R'"
| "gpu_step agrees near (GpuVectorDistanceExec i g) [R] R' \<longleftrightarrow>
     appended_rows near (\<lambda>b. distance_column b (gv_column g) (gv_query g) (gv_metric g)) (gv_output_name g)
       (plan_schema i) R R'"
| "gpu_step agrees near p Rs R' \<longleftrightarrow> False"

definition node_step :: "(plan \<Rightarrow> row multiset list \<Rightarrow> row multiset \<Rightarrow> bool) \<Rightarrow> (batch \<Rightarrow> batch \<Rightarrow> bool)
    \<Rightarrow> (array \<Rightarrow> array \<Rightarrow> bool) \<Rightarrow> plan \<Rightarrow> row multiset list \<Rightarrow> row multiset \<Rightarrow> bool" where
  "node_step df_step agrees near p = (if gpu_node p then gpu_step agrees near p else df_step p)"

inductive admits :: "(plan \<Rightarrow> row multiset list \<Rightarrow> row multiset \<Rightarrow> bool) \<Rightarrow> plan \<Rightarrow> row multiset \<Rightarrow> bool"
  for step where
  admitsI: "list_all2 (admits step) (children p) Rs \<Longrightarrow> step p Rs R \<Longrightarrow> admits step p R"
monos list_all2_mono

inductive_simps admits_iff: "admits step p R"

section \<open>Well-formed plans\<close>

text \<open>
  What holds of the plans DataFusion makes: a join's projection selects from the columns of both sides
  and gives its schema, the two halves of an aggregation compute the same aggregates.  A node of
  OxideLake satisfies what its constructor checked and has the schema it gave.  Comparisons order \<open>NaN\<close> differently in DataFusion's
  and in the device's \<open>MIN\<close> and \<open>MAX\<close>, so these are over integers.
\<close>

definition int_extrema :: "field list \<Rightarrow> agg_info \<Rightarrow> bool" where
  "int_extrema fs agg = list_all (\<lambda>e. (ae_fun e = ''min'' \<or> ae_fun e = ''max'') \<longrightarrow>
     list_all (\<lambda>a. case column_index a of Some c \<Rightarrow> c < length fs \<and> field_type (fs ! c) = Int64 | None \<Rightarrow> True) (ae_args e))
     (ag_aggrs agg)"

definition halves_match :: "agg_info \<Rightarrow> agg_info \<Rightarrow> bool" where
  "halves_match partial agg = (ag_aggrs partial = ag_aggrs agg \<and>
     map (\<lambda>(e, n). column_index e) (ag_group agg) = map Some [0..<length (ag_group partial)])"

text \<open>The partial aggregation below the exchanges, if there is one.\<close>

fun exchange_half :: "plan \<Rightarrow> agg_info option" where
  "exchange_half (RepartitionExec i k pr) = exchange_half i"
| "exchange_half (CoalescePartitionsExec i pr) = exchange_half i"
| "exchange_half (AggregateExec s a pr) = (if ag_mode a = ModePartial then Some a else None)"
| "exchange_half _ = None"

fun node_wf :: "plan \<Rightarrow> bool" where
  "node_wf (HashJoinExec l r j pr) = (case ji_projection j of None \<Rightarrow> True
     | Some js \<Rightarrow> schema_project (plan_schema l @ plan_schema r) js = Inr (np_schema pr))"
| "node_wf (SortExec i k n pr) = (np_schema pr = plan_schema i)"
| "node_wf (RepartitionExec i k pr) = (np_schema pr = plan_schema i)"
| "node_wf (CoalescePartitionsExec i pr) = (np_schema pr = plan_schema i)"
| "node_wf (AggregateExec i agg pr) =
    ((ag_mode agg \<noteq> ModeFinal \<and> ag_mode agg \<noteq> ModeFinalPartitioned \<longrightarrow> int_extrema (plan_schema i) agg) \<and>
     (ag_mode agg = ModeFinal \<or> ag_mode agg = ModeFinalPartitioned \<longrightarrow> (case exchange_half i of
        Some partial \<Rightarrow> halves_match partial agg
      | None \<Rightarrow> True)))"
| "node_wf (GpuFilterExec i g) = (validate_predicate (plan_schema i) (gf_predicate g) = Inr () \<and> gf_projection g \<noteq> [] \<and>
     schema_project (plan_schema i) (gf_projection g) = Inr (np_schema (gf_props g)))"
| "node_wf (GpuHashJoinExec l r g) = (check_key (plan_schema l) (gj_left_key g) ''left'' = Inr () \<and>
     check_key (plan_schema r) (gj_right_key g) ''right'' = Inr () \<and> gj_projection g \<noteq> Some [] \<and>
     schema_project (plan_schema l @ plan_schema r)
       (selected_columns (gj_projection g) (length (plan_schema l) + length (plan_schema r))) = Inr (np_schema (gj_props g)))"
| "node_wf (GpuAggregateExec i g) = (case aggregate_output_schema (plan_schema i) (ga_spec g) of Inr fs \<Rightarrow> True | Inl e \<Rightarrow> False)"
| "node_wf (GpuVectorDistanceExec i g) = (gv_column g < length (plan_schema i) \<and>
     vector_dimension (field_type (plan_schema i ! gv_column g)) = Some (length (gv_query g)) \<and>
     np_schema (gv_props g) = plan_schema i @ [Field (gv_output_name g) Float32 True])"
| "node_wf _ = True"

function plan_wf :: "plan \<Rightarrow> bool" where
  "plan_wf p = (node_wf p \<and> list_all plan_wf (children p))"
  by pat_completeness auto
termination by (relation "measure size") (auto dest: size_children)

declare plan_wf.simps [simp del]

section \<open>The interface of DataFusion\<close>

text \<open>The aggregation a node computes, read off its expressions: one \<open>Int64\<close> column to group by, and
  one function of one numeric column per output.\<close>

fun sql_name :: "aggregate_function \<Rightarrow> string" where
  "sql_name AggSum = ''sum''"
| "sql_name AggCount = ''count''"
| "sql_name AggMin = ''min''"
| "sql_name AggMax = ''max''"

definition computes :: "field list \<Rightarrow> agg_expr \<Rightarrow> aggregate_function \<times> nat \<Rightarrow> bool" where
  "computes fs e = (\<lambda>(f, c). ae_fun e = sql_name f \<and> \<not> ae_distinct e \<and> map column_index (ae_args e) = [Some c] \<and>
     c < length fs \<and> gpu_eligible_scalar (field_type (fs ! c)))"

definition plain_aggregation :: "field list \<Rightarrow> agg_info \<Rightarrow> aggregate_spec \<Rightarrow> bool" where
  "plain_aggregation fs agg spec = (ag_single_set agg \<and> ag_null_exprs agg = [] \<and>
     map (\<lambda>(e, n). column_index e) (ag_group agg) = [Some (group_by spec)] \<and>
     group_by spec < length fs \<and> field_type (fs ! group_by spec) = Int64 \<and>
     list_all (\<lambda>f. f = None) (ag_filters agg) \<and> list_all2 (computes fs) (ag_aggrs agg) (aggregates spec))"

text \<open>The operands of a comparison have one numeric type.\<close>

definition comparable :: "cell option \<Rightarrow> cell option \<Rightarrow> bool" where
  "comparable x y = (\<exists>dt \<in> {Int64, Float64}. \<forall>v. x = Some v \<or> y = Some v \<longrightarrow> cell_ok dt v)"

definition compare_cells :: "comparison \<Rightarrow> cell option \<Rightarrow> cell option \<Rightarrow> cell option" where
  "compare_cells c x y = (case (x, y) of
      (Some v, Some w) \<Rightarrow> Some (CBool (compare_keys c (cell_key v) (cell_key w)))
    | _ \<Rightarrow> None)"

locale plan_semantics =
  fixes D :: df_ops
    and ev :: "pexpr \<Rightarrow> row \<Rightarrow> cell option"
    and df_step :: "plan \<Rightarrow> row multiset list \<Rightarrow> row multiset \<Rightarrow> bool"
    and agrees :: "batch \<Rightarrow> batch \<Rightarrow> bool"
    and near :: "array \<Rightarrow> array \<Rightarrow> bool"
  assumes ev_column: "c < length r \<Longrightarrow> ev (EColumn n c) r = r ! c"
    and ev_int: "ev (ELiteral (SInt64 (Some iv))) r = Some (CInt iv)"
    and ev_float: "ev (ELiteral (SFloat64 (Some fv))) r = Some (CFloat fv)"
    and ev_compare: "comparison_of op = Some cmp \<Longrightarrow> comparable (ev x r) (ev y r)
      \<Longrightarrow> ev (EBinary x op y) r = compare_cells cmp (ev x r) (ev y r)"
    and ev_and: "ev x r = map_option CBool t1 \<Longrightarrow> ev y r = map_option CBool t2
      \<Longrightarrow> ev (EBinary x OpAnd y) r = map_option CBool (kleene_and t1 t2)"
    and ev_distance: "distance_metric_for fn = Some m \<Longrightarrow> batch_ok b \<Longrightarrow> c < length (columns b)
      \<Longrightarrow> args = [(EColumn n c, ColArray (columns b ! c)), (ELiteral v, ColScalar v)]
          \<or> args = [(ELiteral v, ColScalar v), (EColumn n c, ColArray (columns b ! c))]
      \<Longrightarrow> udf_invoke m (map snd args) (num_rows b) = Inr (ColArray out) \<Longrightarrow> k < num_rows b
      \<Longrightarrow> ev (EScalarFunction fn (map fst args)) (batch_rows b ! k) = cells out ! k"
    and props_schema: "df_props D p cs = Inr pr \<Longrightarrow> map plan_schema cs = map plan_schema (children p)
      \<Longrightarrow> np_schema pr = plan_schema p"
    and step_children: "\<not> gpu_node p \<Longrightarrow> with_new_children D p cs = Inr p'
      \<Longrightarrow> map plan_schema cs = map plan_schema (children p) \<Longrightarrow> df_step p' Rs R \<Longrightarrow> df_step p Rs R"
    and filter_step: "df_step (FilterExec i e js pr) [R]
      (image_mset (pick (selected_columns js (length (plan_schema i)))) (filter_mset (\<lambda>r. ev e r = Some (CBool True)) R))"
    and projection_step: "df_step (ProjectionExec i es pr) [R] (image_mset (\<lambda>r. map (\<lambda>(e, a). ev e r) es) R)"
    and distance_step: "passes_through (plan_schema i) es
      \<Longrightarrow> appended_rows near (\<lambda>b. \<lparr>arr_type = Float32, cells = map (ev e) (batch_rows b)\<rparr>) name (plan_schema i) R R'
      \<Longrightarrow> df_step (ProjectionExec i (es @ [(e, name)]) pr) [R] R'"
    and hash_join_step: "plain_inner j \<Longrightarrow> ji_on j = [(EColumn n1 lk, EColumn n2 rk)]
      \<Longrightarrow> df_step (HashJoinExec lp rp j pr) [R, S] (join_rows lk rk
            (selected_columns (ji_projection j) (length (plan_schema lp) + length (plan_schema rp))) R S)"
    and merge_join_step: "plain_inner j \<Longrightarrow> ji_on j = [(EColumn n1 lk, EColumn n2 rk)]
      \<Longrightarrow> df_step (SortMergeJoinExec lp rp j pr) [R, S] (join_rows lk rk [0..<length (plan_schema lp) + length (plan_schema rp)] R S)"
    and sort_step: "df_step (SortExec i sk None pr) [R] R"
    and repartition_step: "df_step (RepartitionExec i sk pr) [R] R"
    and coalesce_step: "df_step (CoalescePartitionsExec i pr) [R] R' \<longleftrightarrow> R' = R"
    and single_step: "ag_mode agg = ModeSingle \<or> ag_mode agg = ModeSinglePartitioned
      \<Longrightarrow> plain_aggregation (plan_schema i) agg spec \<Longrightarrow> int_extrema (plan_schema i) agg
      \<Longrightarrow> agg_rows agrees (plan_schema i) spec R R' \<Longrightarrow> df_step (AggregateExec i agg pr) [R] R'"
    and two_phase_step: "ag_mode agg = ModeFinal \<or> ag_mode agg = ModeFinalPartitioned \<Longrightarrow> ag_mode partial = ModePartial
      \<Longrightarrow> halves_match partial agg \<Longrightarrow> plain_aggregation (plan_schema src) partial spec \<Longrightarrow> int_extrema (plan_schema src) partial
      \<Longrightarrow> agg_rows agrees (plan_schema src) spec R R'
      \<Longrightarrow> \<exists>P. df_step (AggregateExec src partial prp) [R] P \<and> df_step (AggregateExec i agg pr) [P] R'"

section \<open>A reference semantics\<close>

definition truth :: "cell option \<Rightarrow> bool option" where
  "truth c = (case c of Some (CBool b) \<Rightarrow> Some b | _ \<Rightarrow> None)"

fun scalar_cell :: "scalar \<Rightarrow> cell option" where
  "scalar_cell (SInt64 v) = map_option CInt v"
| "scalar_cell (SFloat64 v) = map_option CFloat v"
| "scalar_cell (SFloat32 v) = map_option CSingle v"
| "scalar_cell (SFixedSizeList a) = (case cells a of c # _ \<Rightarrow> c | [] \<Rightarrow> None)"
| "scalar_cell (SOther n) = None"

fun ref_ev :: "pexpr \<Rightarrow> row \<Rightarrow> cell option" where
  "ref_ev (EColumn n i) r = (if i < length r then r ! i else None)"
| "ref_ev (ELiteral v) r = scalar_cell v"
| "ref_ev (EBinary x op y) r =
    (if op = OpAnd then map_option CBool (kleene_and (truth (ref_ev x r)) (truth (ref_ev y r)))
     else case comparison_of op of Some c \<Rightarrow> compare_cells c (ref_ev x r) (ref_ev y r) | None \<Rightarrow> None)"
| "ref_ev (EScalarFunction fn args) r = (case (distance_metric_for fn, map (\<lambda>a. ref_ev a r) args) of
     (Some m, [Some x, Some y]) \<Rightarrow> Some (CSingle (distance m (cell_vec x) (cell_vec y)))
   | _ \<Rightarrow> None)"
| "ref_ev (EOther n) r = None"

definition ref_join :: "join_info \<Rightarrow> nat list \<Rightarrow> row multiset \<Rightarrow> row multiset \<Rightarrow> row multiset \<Rightarrow> bool" where
  "ref_join j js R S R' \<longleftrightarrow> plain_inner j \<and> (case ji_on j of
      [(EColumn _ lk, EColumn _ rk)] \<Rightarrow> R' = join_rows lk rk js R S
    | _ \<Rightarrow> False)"

definition ref_aggregate :: "field list \<Rightarrow> agg_info \<Rightarrow> row multiset \<Rightarrow> row multiset \<Rightarrow> bool" where
  "ref_aggregate fs agg R R' \<longleftrightarrow>
    (if ag_mode agg = ModePartial then R' = R
     else if ag_mode agg = ModeFinal \<or> ag_mode agg = ModeFinalPartitioned
     then \<exists>gs spec. list_all2 (computes gs) (ag_aggrs agg) (aggregates spec) \<and> agg_rows (=) gs spec R R'
     else \<exists>spec. plain_aggregation fs agg spec \<and> agg_rows (=) fs spec R R')"

fun ref_step :: "plan \<Rightarrow> row multiset list \<Rightarrow> row multiset \<Rightarrow> bool" where
  "ref_step (FilterExec i e js pr) [R] R' \<longleftrightarrow>
     R' = image_mset (pick (selected_columns js (length (plan_schema i)))) (filter_mset (\<lambda>r. ref_ev e r = Some (CBool True)) R)"
| "ref_step (ProjectionExec i es pr) [R] R' \<longleftrightarrow> R' = image_mset (\<lambda>r. map (\<lambda>(e, a). ref_ev e r) es) R \<or>
     (es \<noteq> [] \<and> passes_through (plan_schema i) (butlast es) \<and>
      appended_rows (=) (\<lambda>b. \<lparr>arr_type = Float32, cells = map (ref_ev (fst (last es))) (batch_rows b)\<rparr>) (snd (last es))
        (plan_schema i) R R')"
| "ref_step (HashJoinExec l r j pr) [R, S] R' \<longleftrightarrow>
     ref_join j (selected_columns (ji_projection j) (length (plan_schema l) + length (plan_schema r))) R S R'"
| "ref_step (SortMergeJoinExec l r j pr) [R, S] R' \<longleftrightarrow>
     ref_join j [0..<length (plan_schema l) + length (plan_schema r)] R S R'"
| "ref_step (SortExec i k n pr) [R] R' \<longleftrightarrow>
     (case n of None \<Rightarrow> R' = R | Some n \<Rightarrow> R' \<subseteq># R \<and> size R' = min n (size R))"
| "ref_step (RepartitionExec i k pr) [R] R' \<longleftrightarrow> R' = R"
| "ref_step (CoalescePartitionsExec i pr) [R] R' \<longleftrightarrow> R' = R"
| "ref_step (AggregateExec i agg pr) [R] R' \<longleftrightarrow> ref_aggregate (plan_schema i) agg R R'"
| "ref_step (OtherExec n cs pr) Rs R' \<longleftrightarrow> (Rs = [] \<or> R' = sum_list Rs)"
| "ref_step p Rs R' \<longleftrightarrow> False"

definition ref_df :: df_ops where
  "ref_df = \<lparr>df_props = (\<lambda>p cs. if map plan_schema cs = map plan_schema (children p) then Inr (plan_props p)
       else plan_err [Txt ''schema mismatch'']),
     df_show = (\<lambda>e. ''expr''), df_show_op = (\<lambda>op. ''op'')\<rparr>"

section \<open>Lemmas on rows\<close>

lemma length_batch_rows [simp]: "length (batch_rows b) = num_rows b"
  by (simp add: batch_rows_def)

lemma batch_rows_nth: "k < num_rows b \<Longrightarrow> batch_rows b ! k = map (\<lambda>c. cells c ! k) (columns b)"
  by (simp add: batch_rows_def)

lemma batch_row_cell: "k < num_rows b \<Longrightarrow> i < length (columns b) \<Longrightarrow> batch_rows b ! k ! i = cells (columns b ! i) ! k"
  by (simp add: batch_rows_nth)

lemma rows_of_simps [simp]: "rows_of [] = {#}" "rows_of (b # bs) = mset (batch_rows b) + rows_of bs"
  by (simp_all add: rows_of_def)

lemma rows_of_append [simp]: "rows_of (as @ bs) = rows_of as + rows_of bs"
  by (simp add: rows_of_def)

lemma batches_of_simps [simp]:
  "batches_of fs []" "batches_of fs (b # bs) \<longleftrightarrow> batch_ok b \<and> schema b = fs \<and> batches_of fs bs"
  by (simp_all add: batches_of_def)

lemma column_cell_ok:
  assumes "batch_ok b" and "k < num_rows b" and "i < length (columns b)"
  shows "case cells (columns b ! i) ! k of None \<Rightarrow> field_nullable (schema b ! i)
    | Some v \<Rightarrow> cell_ok (field_type (schema b ! i)) v"
proof -
  have fit: "column_fits (num_rows b) (schema b ! i) (columns b ! i)" and ok: "array_ok (columns b ! i)"
    using batch_ok_nth [OF assms(1,3)] by simp_all
  then have "cells (columns b ! i) ! k \<in> set (cells (columns b ! i))"
    using assms(2) by (simp add: column_fits_def)
  then show ?thesis using fit ok
    by (auto simp: column_fits_def array_ok_def list_all_iff split: option.splits)
qed

lemma batch_row_ok: "batch_ok b \<Longrightarrow> k < num_rows b \<Longrightarrow> row_ok (schema b) (batch_rows b ! k)"
  using column_cell_ok [of b k] batch_ok_length [of b]
  by (auto simp: row_ok_def list_all2_conv_all_nth batch_rows_nth)

lemma rows_ok_of: "batches_of fs bs \<Longrightarrow> rows_ok fs (rows_of bs)"
  by (induction bs) (auto simp: rows_ok_def in_set_conv_nth intro: batch_row_ok)

lemma row_ok_length: "row_ok fs r \<Longrightarrow> length r = length fs"
  by (simp add: row_ok_def list_all2_lengthD)

lemma row_ok_cell: "row_ok fs r \<Longrightarrow> i < length fs \<Longrightarrow> r ! i = Some v \<Longrightarrow> cell_ok (field_type (fs ! i)) v"
  by (auto simp: row_ok_def dest!: list_all2_nthD [where p = i])

lemma pred_row_on_row:
  assumes "\<forall>i \<in> set (pred_columns p). i < length (columns b)" and "k < num_rows b"
  shows "pred_row b p k = pred_on_row p (batch_rows b ! k)"
  using assms(1) by (induction p) (auto simp: batch_row_cell assms(2))

section \<open>The reference semantics is one\<close>

lemma distance_metric_for_name: "distance_metric_for fn = Some m \<longleftrightarrow> fn = distance_udf_name m"
  by (cases m) (auto simp: distance_metric_for_def split: if_splits)

lemma udf_distance_args:
  assumes "udf_invoke m [x, y] n = Inr (ColArray out)" and "k < n"
  obtains a b d where "fixed_size_list (distance_udf_name m) x = Inr a" and "fixed_size_list (distance_udf_name m) y = Inr b"
    and "udf_distance m a b k = Inr d" and "cells out ! k = map_option CSingle d"
proof -
  obtain a b ds where ab: "fixed_size_list (distance_udf_name m) x = Inr a" "fixed_size_list (distance_udf_name m) y = Inr b"
    and ds: "collect_res (udf_distance m a b) [0..<n] = Inr ds" and out: "out = float32_array ds"
    using assms(1) unfolding udf_invoke_def Let_def list.case and_then_Inr by (auto simp: map_res_Inr split: if_splits)
  have "length ds = n" and "udf_distance m a b k = Inr (ds ! k)"
    using ds assms(2) collect_res_length [OF ds] list_all2_nthD [of _ "[0..<n]" ds k] by (auto simp: collect_res_Inr)
  then show ?thesis using that [OF ab] out assms(2) by (simp add: float32_array_def)
qed

lemma scalar_list: "fixed_size_list name (ColScalar v) = Inr a \<Longrightarrow> \<exists>arr. v = SFixedSizeList arr \<and> a = (arr, True)"
  by (cases v) auto

lemma column_list: "fixed_size_list name (ColArray arr) = Inr a \<Longrightarrow> a = (arr, False)"
  by (auto split: data_type.splits)

lemma udf_distance_cell:
  assumes "udf_distance m (col, False) (arr, True) k = Inr d"
  shows "map_option CSingle d = (case (cells col ! k, scalar_cell (SFixedSizeList arr)) of
      (Some x, Some y) \<Rightarrow> Some (CSingle (distance m (cell_vec x) (cell_vec y))) | _ \<Rightarrow> None)"
  using assms by (cases "cells arr") (auto simp: udf_distance_def Let_def split: if_splits option.splits)

lemma udf_distance_cell_swapped:
  assumes "udf_distance m (arr, True) (col, False) k = Inr d"
  shows "map_option CSingle d = (case (scalar_cell (SFixedSizeList arr), cells col ! k) of
      (Some x, Some y) \<Rightarrow> Some (CSingle (distance m (cell_vec x) (cell_vec y))) | _ \<Rightarrow> None)"
  using assms by (cases "cells arr") (auto simp: udf_distance_def Let_def split: if_splits option.splits)

lemma ref_ev_distance:
  assumes "distance_metric_for fn = Some m" and "c < length (columns b)"
    and "args = [(EColumn n c, ColArray (columns b ! c)), (ELiteral v, ColScalar v)]
      \<or> args = [(ELiteral v, ColScalar v), (EColumn n c, ColArray (columns b ! c))]"
    and "udf_invoke m (map snd args) (num_rows b) = Inr (ColArray out)" and "k < num_rows b"
  shows "ref_ev (EScalarFunction fn (map fst args)) (batch_rows b ! k) = cells out ! k"
  using assms(3)
proof
  assume args: "args = [(EColumn n c, ColArray (columns b ! c)), (ELiteral v, ColScalar v)]"
  then have "udf_invoke m [ColArray (columns b ! c), ColScalar v] (num_rows b) = Inr (ColArray out)" using assms(4) by simp
  then obtain x y d where x: "fixed_size_list (distance_udf_name m) (ColArray (columns b ! c)) = Inr x"
    and y: "fixed_size_list (distance_udf_name m) (ColScalar v) = Inr y"
    and d: "udf_distance m x y k = Inr d" "cells out ! k = map_option CSingle d"
    using udf_distance_args [OF _ assms(5)] by blast
  obtain arr where v: "v = SFixedSizeList arr" "y = (arr, True)" using scalar_list [OF y] by blast
  have "x = (columns b ! c, False)" using column_list [OF x] .
  then have "cells out ! k = (case (cells (columns b ! c) ! k, scalar_cell v) of
      (Some x, Some y) \<Rightarrow> Some (CSingle (distance m (cell_vec x) (cell_vec y))) | _ \<Rightarrow> None)"
    using d v udf_distance_cell by simp
  then show ?thesis using args assms(1,2,5) by (auto simp: batch_rows_nth split: option.splits)
next
  assume args: "args = [(ELiteral v, ColScalar v), (EColumn n c, ColArray (columns b ! c))]"
  then have "udf_invoke m [ColScalar v, ColArray (columns b ! c)] (num_rows b) = Inr (ColArray out)" using assms(4) by simp
  then obtain x y d where x: "fixed_size_list (distance_udf_name m) (ColScalar v) = Inr x"
    and y: "fixed_size_list (distance_udf_name m) (ColArray (columns b ! c)) = Inr y"
    and d: "udf_distance m x y k = Inr d" "cells out ! k = map_option CSingle d"
    using udf_distance_args [OF _ assms(5)] by blast
  obtain arr where v: "v = SFixedSizeList arr" "x = (arr, True)" using scalar_list [OF x] by blast
  have "y = (columns b ! c, False)" using column_list [OF y] .
  then have "cells out ! k = (case (scalar_cell v, cells (columns b ! c) ! k) of
      (Some x, Some y) \<Rightarrow> Some (CSingle (distance m (cell_vec x) (cell_vec y))) | _ \<Rightarrow> None)"
    using d v udf_distance_cell_swapped by simp
  then show ?thesis using args assms(1,2,5) by (auto simp: batch_rows_nth split: option.splits)
qed

lemma list_shape:
  obtains "cs = []" | a where "cs = [a]" | a b where "cs = [a, b]" | a b c ds where "cs = a # b # c # ds"
  by (metis list.exhaust)

lemma rebuilt_df:
  assumes "\<not> gpu_node p" and "with_new_children D p cs = Inr p'"
  shows "df_props D p cs = Inr (plan_props p') \<and> children p' = cs \<and> \<not> gpu_node p'"
  using assms
  by (cases cs rule: list_shape; cases p) (simp_all add: result_simps, auto)

lemma ref_step_children:
  assumes "\<not> gpu_node p" and "with_new_children D p cs = Inr p'"
    and "map plan_schema cs = map plan_schema (children p)" and "ref_step p' Rs R"
  shows "ref_step p Rs R"
proof (cases p)
  case (OtherExec n ds pr)
  then have "\<exists>pr'. p' = OtherExec n cs pr'" using assms(2) by (auto simp: result_simps)
  then show ?thesis using assms(4) OtherExec by auto
qed (use assms in \<open>cases cs rule: list_shape; cases Rs rule: list_shape; auto simp: result_simps\<close>)+

interpretation reference_plans: plan_semantics ref_df ref_ev ref_step "(=)" "(=)"
proof unfold_locales
  fix x y r op cmp
  assume "comparison_of op = Some cmp" and "comparable (ref_ev x r) (ref_ev y r)"
  then show "ref_ev (EBinary x op y) r = compare_cells cmp (ref_ev x r) (ref_ev y r)"
    by (cases op) auto
next
  fix x y r t1 t2
  assume "ref_ev x r = map_option CBool t1" and "ref_ev y r = map_option CBool t2"
  then show "ref_ev (EBinary x OpAnd y) r = map_option CBool (kleene_and t1 t2)"
    by (cases t1; cases t2) (simp_all add: truth_def)
next
  fix p cs pr
  assume "df_props ref_df p cs = Inr pr" and "map plan_schema cs = map plan_schema (children p)"
  then show "np_schema pr = plan_schema p" by (simp add: ref_df_def)
next
  fix agg i spec R R' pr
  assume "ag_mode agg = ModeSingle \<or> ag_mode agg = ModeSinglePartitioned"
    and "plain_aggregation (plan_schema i) agg spec" and "agg_rows (=) (plan_schema i) spec R R'"
  then show "ref_step (AggregateExec i agg pr) [R] R'" by (auto simp: ref_aggregate_def)
next
  fix agg partial src spec R R' prp i pr
  assume "ag_mode agg = ModeFinal \<or> ag_mode agg = ModeFinalPartitioned" and "ag_mode partial = ModePartial"
    and "halves_match partial agg" and "plain_aggregation (plan_schema src) partial spec"
    and "agg_rows (=) (plan_schema src) spec R R'"
  then show "\<exists>P. ref_step (AggregateExec src partial prp) [R] P \<and> ref_step (AggregateExec i agg pr) [P] R'"
    by (auto simp: ref_aggregate_def halves_match_def plain_aggregation_def)
next
  fix fn m and b :: batch and c args n v out k
  assume "distance_metric_for fn = Some m" and "c < length (columns b)"
    and "args = [(EColumn n c, ColArray (columns b ! c)), (ELiteral v, ColScalar v)]
      \<or> args = [(ELiteral v, ColScalar v), (EColumn n c, ColArray (columns b ! c))]"
    and "udf_invoke m (map snd args) (num_rows b) = Inr (ColArray out)" and "k < num_rows b"
  then show "ref_ev (EScalarFunction fn (map fst args)) (batch_rows b ! k) = cells out ! k"
    by (rule ref_ev_distance)
qed (auto simp: ref_join_def dest: ref_step_children)

end
