(* ===== verification/Placement_Correct.thy ===== *)
theory Placement_Correct
  imports Plan_Semantics
begin

text \<open>
  The placement rule keeps the meaning of a plan: whatever the rewritten plan may deliver, the original
  plan may deliver, with the same schema.  Each lowering is shown to refine its node; the traversal
  composes the refinements.
\<close>

section \<open>Refinement of plans\<close>

definition refines :: "(plan \<Rightarrow> row multiset list \<Rightarrow> row multiset \<Rightarrow> bool) \<Rightarrow> plan \<Rightarrow> plan \<Rightarrow> bool" where
  "refines step p q \<longleftrightarrow> plan_schema q = plan_schema p \<and> (\<forall>R. admits step q R \<longrightarrow> admits step p R)"

lemma refines_refl [simp]: "refines step p p"
  by (simp add: refines_def)

lemma refines_trans: "refines step p q \<Longrightarrow> refines step q r \<Longrightarrow> refines step p r"
  by (simp add: refines_def)

lemma schema_project_Inr:
  "schema_project fs js = Inr gs \<longleftrightarrow> (\<forall>j \<in> set js. j < length fs) \<and> gs = map ((!) fs) js"
  by (auto simp: schema_project_def)

lemma filter_try_new_Inr:
  "filter_try_new i p js k = Inr g \<longleftrightarrow> validate_predicate (plan_schema i) p = Inr () \<and> js \<noteq> [] \<and>
     (\<exists>fs. schema_project (plan_schema i) js = Inr fs \<and>
       g = \<lparr>gf_predicate = p, gf_projection = js,
            gf_props = \<lparr>np_schema = fs, np_partitions = partition_count i\<rparr>, gf_config = config_new k\<rparr>)"
  by (auto simp: filter_try_new_def result_simps plan_err_def)

lemma join_try_new_Inr:
  "join_try_new l r lk rk k = Inr g \<longleftrightarrow> check_key (plan_schema l) lk ''left'' = Inr () \<and>
     check_key (plan_schema r) rk ''right'' = Inr () \<and>
     g = \<lparr>gj_left_key = lk, gj_right_key = rk, gj_projection = None,
          gj_props = \<lparr>np_schema = plan_schema l @ plan_schema r, np_partitions = partition_count l\<rparr>,
          gj_config = config_new k\<rparr>"
  by (auto simp: join_try_new_def result_simps joined_schema_def)

lemma with_projection_Inr:
  "with_projection l r (Some js) g = Inr g' \<longleftrightarrow> js \<noteq> [] \<and>
     (\<exists>fs. schema_project (plan_schema l @ plan_schema r) js = Inr fs \<and>
       g' = g\<lparr>gj_props := \<lparr>np_schema = fs, np_partitions = partition_count l\<rparr>, gj_projection := Some js\<rparr>)"
  "with_projection l r None g = Inr (g\<lparr>gj_props := \<lparr>np_schema = plan_schema l @ plan_schema r,
     np_partitions = partition_count l\<rparr>, gj_projection := None\<rparr>)"
  by (auto simp: with_projection_def result_simps joined_schema_def plan_err_def)

lemma vector_try_new_Inr:
  "vector_try_new i c q m name k = Inr g \<longleftrightarrow> c < length (plan_schema i) \<and>
     vector_dimension (field_type (plan_schema i ! c)) = Some (length q) \<and>
     g = \<lparr>gv_column = c, gv_query = q, gv_metric = m, gv_output_name = name,
          gv_props = \<lparr>np_schema = plan_schema i @ [Field name Float32 True], np_partitions = partition_count i\<rparr>,
          gv_config = config_new k\<rparr>"
  by (auto simp: vector_try_new_def column_type_def result_simps plan_err_def split: if_splits)

lemma with_output_schema_Inr:
  "with_output_schema fs g = Inr g' \<Longrightarrow> g' = g\<lparr>ga_props := \<lparr>np_schema = fs, np_partitions = 1\<rparr>\<rparr>"
  by (auto simp: with_output_schema_def Let_def result_simps plan_err_def split: if_splits)

lemma aggregate_try_new_Inr:
  "aggregate_try_new i spec k = Inr g \<Longrightarrow> ga_spec g = spec \<and> (\<exists>fs. aggregate_output_schema (plan_schema i) spec = Inr fs)"
  by (auto simp: aggregate_try_new_def result_simps)

lemma check_key_Inr: "check_key fs k side = Inr () \<longleftrightarrow> k < length fs \<and> field_type (fs ! k) = Int64"
  by (auto simp: check_key_def column_type_def plan_err_def)

lemma stays_not_Some [simp]: "stays node why h \<noteq> (Inr (Some q), h')"
  by (simp add: stays_def)

section \<open>Predicates\<close>

lemma compare_keys_flip: "compare_keys (flip c) x y = compare_keys c y x"
  by (cases c) auto

lemma literal_of_cases:
  assumes "literal_of e = Some lit"
  obtains v where "e = ELiteral (SInt64 (Some v))" and "lit = LInt64 v"
  | v where "e = ELiteral (SFloat64 (Some v))" and "lit = LFloat64 v"
  using assms by (cases e rule: literal_of.cases) auto

lemma column_index_Some: "column_index e = Some i \<longleftrightarrow> (\<exists>n. e = EColumn n i)"
  by (cases e) auto

lemma compare_operands_Some:
  assumes "compare_operands l r op = Some (c, lit, cmp)"
  obtains n where "l = EColumn n c" and "literal_of r = Some lit" and "cmp = op"
  | n where "literal_of l = Some lit" and "r = EColumn n c" and "cmp = flip op"
  using assms by (auto simp: compare_operands_def column_index_Some split: option.splits)

lemma try_lower_predicate_typed:
  "try_lower_predicate D fs e = Inr p \<Longrightarrow> pred_typed (map field_type fs) p"
proof (induction D fs e arbitrary: p rule: try_lower_predicate.induct)
  case (1 D fs l op r)
  show ?case
  proof (cases "op = OpAnd")
    case True
    then show ?thesis using 1 by (auto simp: result_simps)
  next
    case False
    then show ?thesis using 1(3) by (auto split: option.splits if_splits)
  qed
qed auto

context plan_semantics
begin

lemma ev_literal:
  assumes "literal_of e = Some lit"
  obtains v where "ev e r = Some v" and "cell_key v = literal_key lit" and "cell_ok (literal_data_type lit) v"
  using assms by (cases rule: literal_of_cases) (auto simp: ev_int ev_float)

lemma lowered_comparison:
  assumes ops: "compare_operands x y op = Some (c, lit, cmp)" and "comparison_of dop = Some op"
    and row: "row_ok fs r" and c: "c < length fs" "field_type (fs ! c) = literal_data_type lit"
  shows "ev (EBinary x dop y) r = map_option CBool (pred_on_row (Compare c cmp lit) r)"
proof -
  have len: "c < length r" using row_ok_length [OF row] c by simp
  have cell: "cell_ok (literal_data_type lit) v" if "r ! c = Some v" for v
    using row_ok_cell [OF row c(1) that] c(2) by simp
  obtain e where e: "literal_of e = Some lit" and form: "(\<exists>n. x = EColumn n c \<and> y = e \<and> cmp = op)
      \<or> (\<exists>n. y = EColumn n c \<and> x = e \<and> cmp = flip op)"
    using ops by (cases rule: compare_operands_Some) auto
  obtain v where v: "ev e r = Some v" "cell_key v = literal_key lit" "cell_ok (literal_data_type lit) v"
    using ev_literal [OF e] .
  have "comparable (r ! c) (Some v)" "comparable (Some v) (r ! c)"
    using v(3) cell literal_data_type_cases [of lit] by (auto simp: comparable_def)
  then show ?thesis using form v ev_compare [OF assms(2), of x r y] ev_column [OF len]
    by (auto simp: compare_cells_def compare_keys_flip split: option.splits)
qed

lemma lowered_predicate:
  assumes "try_lower_predicate D fs e = Inr p" and row: "row_ok fs r"
  shows "ev e r = map_option CBool (pred_on_row p r)"
  using assms(1)
proof (induction e arbitrary: p)
  case (EBinary x op y)
  show ?case
  proof (cases "op = OpAnd")
    case True
    then obtain p1 p2 where p: "p = And p1 p2" "try_lower_predicate D fs x = Inr p1" "try_lower_predicate D fs y = Inr p2"
      using EBinary.prems by (auto simp: result_simps)
    then show ?thesis using True ev_and [OF EBinary.IH(1) EBinary.IH(2)] by simp
  next
    case False
    then obtain cmp c lit cmp' where "comparison_of op = Some cmp" "compare_operands x y cmp = Some (c, lit, cmp')"
      "c < length fs" "field_type (fs ! c) = literal_data_type lit" "p = Compare c cmp' lit"
      using EBinary.prems by (auto simp: not_le split: option.splits if_splits)
    then show ?thesis using lowered_comparison row by blast
  qed
qed auto

end

lemma ex_list1: "(\<exists>Rs. list_all2 P [i] Rs \<and> Q Rs) \<longleftrightarrow> (\<exists>S. P i S \<and> Q [S])"
  by (auto simp: list_all2_Cons1)

lemma ex_list2: "(\<exists>Rs. list_all2 P [l, r] Rs \<and> Q Rs) \<longleftrightarrow> (\<exists>S T. P l S \<and> P r T \<and> Q [S, T])"
  by (auto simp: list_all2_Cons1)

context plan_semantics
begin

abbreviation step :: "plan \<Rightarrow> row multiset list \<Rightarrow> row multiset \<Rightarrow> bool" where
  "step \<equiv> node_step df_step agrees near"

lemma admits_df: "\<not> gpu_node p \<Longrightarrow> admits step p R \<longleftrightarrow> (\<exists>Rs. list_all2 (admits step) (children p) Rs \<and> df_step p Rs R)"
  by (subst admits_iff) (auto simp: node_step_def)

lemma admits_gpu: "gpu_node p \<Longrightarrow> admits step p R \<longleftrightarrow> (\<exists>Rs. list_all2 (admits step) (children p) Rs \<and> gpu_step agrees near p Rs R)"
  by (subst admits_iff) (auto simp: node_step_def)

lemma admits_gpu_filter: "admits step (GpuFilterExec i g) R \<longleftrightarrow> (\<exists>S. admits step i S \<and> rows_ok (plan_schema i) S \<and>
    R = image_mset (pick (gf_projection g)) (filter_mset (\<lambda>r. pred_on_row (gf_predicate g) r = Some True) S))"
  by (subst admits_gpu) (simp_all add: ex_list1 ex_list2)

lemma admits_gpu_join: "admits step (GpuHashJoinExec l r g) R \<longleftrightarrow> (\<exists>S T. admits step l S \<and> admits step r T \<and>
    rows_ok (plan_schema l) S \<and> rows_ok (plan_schema r) T \<and>
    R = join_rows (gj_left_key g) (gj_right_key g)
      (selected_columns (gj_projection g) (length (plan_schema l) + length (plan_schema r))) S T)"
  by (subst admits_gpu) (simp_all add: ex_list1 ex_list2)

lemma admits_gpu_aggregate: "admits step (GpuAggregateExec i g) R \<longleftrightarrow>
    (\<exists>S. admits step i S \<and> agg_rows agrees (plan_schema i) (ga_spec g) S R)"
  by (subst admits_gpu) (simp_all add: ex_list1 ex_list2)

lemma admits_gpu_vector: "admits step (GpuVectorDistanceExec i g) R \<longleftrightarrow> (\<exists>S. admits step i S \<and>
    appended_rows near (\<lambda>b. distance_column b (gv_column g) (gv_query g) (gv_metric g)) (gv_output_name g) (plan_schema i) S R)"
  by (subst admits_gpu) (simp_all add: ex_list1 ex_list2)

lemma admits_one: "\<not> gpu_node p \<Longrightarrow> children p = [i] \<Longrightarrow> admits step i S \<Longrightarrow> df_step p [S] R \<Longrightarrow> admits step p R"
  by (subst admits_df) (auto simp: ex_list1)

lemma admits_two:
  "\<not> gpu_node p \<Longrightarrow> children p = [l, r] \<Longrightarrow> admits step l S \<Longrightarrow> admits step r T \<Longrightarrow> df_step p [S, T] R \<Longrightarrow> admits step p R"
  by (subst admits_df) (auto simp: ex_list2)

section \<open>Filters and projections\<close>

lemma filter_refines:
  assumes "try_lower_predicate D (plan_schema i) e = Inr p"
    and "gf_predicate g = p" and "gf_projection g = selected_columns js (length (plan_schema i))"
    and "np_schema (gf_props g) = np_schema pr"
  shows "refines step (FilterExec i e js pr) (GpuFilterExec i g)"
  unfolding refines_def
proof (intro conjI allI impI)
  fix R
  assume "admits step (GpuFilterExec i g) R"
  then obtain S where S: "admits step i S" "rows_ok (plan_schema i) S"
    and R: "R = image_mset (pick (gf_projection g)) (filter_mset (\<lambda>r. pred_on_row p r = Some True) S)"
    unfolding admits_gpu_filter assms(2) by blast
  have "filter_mset (\<lambda>r. pred_on_row p r = Some True) S = filter_mset (\<lambda>r. ev e r = Some (CBool True)) S"
  proof (intro filter_mset_cong refl)
    fix r
    assume "r \<in># S"
    then have "ev e r = map_option CBool (pred_on_row p r)"
      using lowered_predicate [OF assms(1)] S(2) by (simp add: rows_ok_def)
    then show "(pred_on_row p r = Some True) = (ev e r = Some (CBool True))" by auto
  qed
  then have "df_step (FilterExec i e js pr) [S] R" using filter_step R assms(3) by simp
  then show "admits step (FilterExec i e js pr) R" by (intro admits_one [OF _ _ S(1)]) simp_all
qed (simp add: assms(4))

lemma lower_filter_refines:
  assumes "lower_filter D k i e js pr h = (Inr (Some q), h')"
  shows "refines step (FilterExec i e js pr) q \<and> node_wf q \<and> gpu_node q \<and> children q = [i]"
proof -
  obtain p g where p: "try_lower_predicate D (plan_schema i) e = Inr p"
    and g: "filter_try_new i p (selected_columns js (length (plan_schema i))) k = Inr g"
    and s: "np_schema (gf_props g) = np_schema pr" and q: "q = GpuFilterExec i (g\<lparr>gf_config := instrument h (gf_config g)\<rparr>)"
    using assms by (auto simp: lower_filter_def stays_def call_then_Inr Let_def selected_columns_def [symmetric]
        split: sum.splits if_splits)
  show ?thesis
    using filter_refines [OF p, of "g\<lparr>gf_config := instrument h (gf_config g)\<rparr>"] g s
    by (auto simp: q filter_try_new_Inr)
qed

end

lemma fuse_columns_Some:
  "fuse_columns fs js es = Inr (Some fused) \<Longrightarrow> list_all2 (\<lambda>(e, a) j. \<exists>n i. e = EColumn n i \<and> i < length js \<and> j = js ! i) es fused"
proof (induction es arbitrary: fused)
  case (Cons x es)
  obtain e a where x: "x = (e, a)" by (cases x)
  obtain n i where e: "e = EColumn n i" using Cons.prems x by (cases e) auto
  have i: "i < length js" "i < length fs" using Cons.prems x e by (auto simp: result_simps schema_field_def split: if_splits)
  then obtain rest where "fuse_columns fs js es = Inr (Some rest)" "fused = js ! i # rest"
    using Cons.prems x e by (auto simp: result_simps schema_field_def eq_commute [of "Some fused"] split: if_splits)
  then show ?case using Cons.IH x e i by simp
qed simp

lemma length_pick [simp]: "length (pick js r) = length js"
  by (simp add: pick_def)

lemma pick_simps [simp]: "pick [] r = []" "pick (j # js) r = r ! j # pick js r"
  by (simp_all add: pick_def)

lemma pick_nth [simp]: "i < length js \<Longrightarrow> pick js r ! i = r ! (js ! i)"
  by (simp add: pick_def)

context plan_semantics
begin

lemma fused_row:
  assumes "list_all2 (\<lambda>(e, a) j. \<exists>n i. e = EColumn n i \<and> i < length js \<and> j = js ! i) es fused"
  shows "map (\<lambda>(e, a). ev e (pick js r)) es = pick fused r"
  using assms by (induction rule: list_all2_induct) (auto simp: ev_column)

lemma fuse_refines:
  assumes "list_all2 (\<lambda>(e, a) j. \<exists>n i. e = EColumn n i \<and> i < length (gf_projection g) \<and> j = gf_projection g ! i) es (gf_projection g')"
    and "gf_predicate g' = gf_predicate g" and "np_schema (gf_props g') = np_schema pr"
  shows "refines step (ProjectionExec (GpuFilterExec i g) es pr) (GpuFilterExec i g')"
  unfolding refines_def
proof (intro conjI allI impI)
  fix R
  assume "admits step (GpuFilterExec i g') R"
  then obtain S where S: "admits step i S" "rows_ok (plan_schema i) S"
    and R: "R = image_mset (pick (gf_projection g')) (filter_mset (\<lambda>r. pred_on_row (gf_predicate g) r = Some True) S)"
    unfolding admits_gpu_filter assms(2) by blast
  let ?T = "image_mset (pick (gf_projection g)) (filter_mset (\<lambda>r. pred_on_row (gf_predicate g) r = Some True) S)"
  have T: "admits step (GpuFilterExec i g) ?T" unfolding admits_gpu_filter by (rule exI [of _ S]) (simp add: S)
  have "df_step (ProjectionExec (GpuFilterExec i g) es pr) [?T] R"
  proof -
    have "image_mset (\<lambda>r. map (\<lambda>(e, a). ev e r) es) ?T = R"
      unfolding R multiset.map_comp comp_def using fused_row [OF assms(1)] by (intro image_mset_cong) simp
    then show ?thesis using projection_step [of "GpuFilterExec i g" es pr ?T] by simp
  qed
  then show "admits step (ProjectionExec (GpuFilterExec i g) es pr) R" by (intro admits_one [OF _ _ T]) simp_all
qed (simp add: assms(3))

lemma fuse_projection_refines:
  assumes "fuse_projection k i es pr h = (Inr (Some q), h')"
  shows "refines step (ProjectionExec i es pr) q \<and> node_wf q \<and> gpu_node q \<and> (\<exists>s g. i = GpuFilterExec s g \<and> children q = [s])"
proof -
  obtain s g where i: "i = GpuFilterExec s g"
    using assms by (cases i) (simp_all add: fuse_projection_def)
  obtain js g' where js: "fuse_columns (plan_schema i) (gf_projection g) es = Inr (Some js)"
    and g': "filter_try_new s (gf_predicate g) js k = Inr g'"
    and pr: "np_schema (gf_props g') = np_schema pr" and q: "q = GpuFilterExec s (g'\<lparr>gf_config := instrument h (gf_config g')\<rparr>)"
    using assms i by (auto simp: fuse_projection_def call_then_Inr split: option.splits if_splits)
  show ?thesis
    using fuse_refines [of g es "g'\<lparr>gf_config := instrument h (gf_config g')\<rparr>" pr s] fuse_columns_Some [OF js] g' pr i
    by (auto simp: q filter_try_new_Inr)
qed

end

section \<open>Distances\<close>

lemma udf_distance_row:
  assumes "k < length (cells col)" and "cells arr = [Some (CVec w)]"
  shows "udf_distance m (col, False) (arr, True) k = Inr (map_option (\<lambda>c. distance m (cell_vec c) (map snd w)) (cells col ! k))"
    and "udf_distance m (arr, True) (col, False) k = Inr (map_option (\<lambda>c. distance m (cell_vec c) (map snd w)) (cells col ! k))"
  using assms distance_commute [of m "map snd w"]
  by (cases "cells col ! k"; simp add: udf_distance_def)+

lemma literal_query_Some:
  assumes "literal_query v = Some q"
  obtains arr f w where "v = SFixedSizeList arr" and "arr_type arr = FixedSizeList f (int (length w))"
    and "field_type f = Float32" and "cells arr = [Some (CVec w)]" and "q = map snd w"
  using assms by (auto simp: literal_query_def split: scalar.splits data_type.splits list.splits option.splits cell.splits if_splits)

lemma udf_invoke_distance:
  assumes "literal_query v = Some q" and "vector_dimension (arr_type col) = Some (length q)" and "length (cells col) = n"
    and "args = [ColArray col, ColScalar v] \<or> args = [ColScalar v, ColArray col]"
  shows "udf_invoke m args n = Inr (ColArray (float32_array (map (map_option (\<lambda>c. distance m (cell_vec c) q)) (cells col))))"
proof -
  obtain arr f w where v: "v = SFixedSizeList arr" "arr_type arr = FixedSizeList f (int (length w))" "field_type f = Float32"
    "cells arr = [Some (CVec w)]" "q = map snd w"
    using assms(1) by (rule literal_query_Some)
  obtain f' d where col: "arr_type col = FixedSizeList f' d" "field_type f' = Float32" "d > 0" "length w = nat d"
    using assms(2) v(5) by (auto simp: vector_dimension_Some)
  let ?g = "map_option (\<lambda>c. distance m (cell_vec c) q)"
  have cells: "map ?g (cells col) = map (\<lambda>k. ?g (cells col ! k)) [0..<n]"
    using assms(3) by (intro nth_equalityI) auto
  have "collect_res (udf_distance m (col, False) (arr, True)) [0..<n] = Inr (map ?g (cells col))"
    "collect_res (udf_distance m (arr, True) (col, False)) [0..<n] = Inr (map ?g (cells col))"
    unfolding cells using udf_distance_row [OF _ v(4)] v(5) assms(3) by (intro collect_res_map; simp)+
  then show ?thesis
    using assms(4) v col by (auto simp: udf_invoke_def float_values_def)
qed

lemma distance_call_Some:
  assumes "distance_call e = Some (m, c, q)"
  obtains fn n v where "distance_metric_for fn = Some m" and "literal_query v = Some q"
    and "e = EScalarFunction fn [EColumn n c, ELiteral v] \<or> e = EScalarFunction fn [ELiteral v, EColumn n c]"
proof -
  obtain fn a b where e: "e = EScalarFunction fn [a, b]"
    using assms by (auto simp: distance_call_def split: pexpr.splits list.splits)
  obtain m' where "distance_metric_for fn = Some m'"
    using assms e by (auto simp: distance_call_def split: option.splits)
  then show ?thesis using that assms e by (cases a; cases b) (auto simp: distance_call_def)
qed

context plan_semantics
begin

lemma distance_call_cells:
  assumes "distance_call e = Some (m, c, q)" and "batch_ok b" and "c < length (columns b)"
    and "vector_dimension (field_type (schema b ! c)) = Some (length q)"
  shows "\<lparr>arr_type = Float32, cells = map (ev e) (batch_rows b)\<rparr> = distance_column b c q m"
proof -
  obtain fn n v where fn: "distance_metric_for fn = Some m" and v: "literal_query v = Some q"
    and e: "e = EScalarFunction fn [EColumn n c, ELiteral v] \<or> e = EScalarFunction fn [ELiteral v, EColumn n c]"
    using assms(1) by (rule distance_call_Some)
  have col: "vector_dimension (arr_type (columns b ! c)) = Some (length q)" "length (cells (columns b ! c)) = num_rows b"
    using assms(4) batch_ok_type [OF assms(2,3)] batch_ok_rows [OF assms(2,3)] by simp_all
  have inv: "udf_invoke m args (num_rows b) = Inr (ColArray (distance_column b c q m))"
    if "args = [ColArray (columns b ! c), ColScalar v] \<or> args = [ColScalar v, ColArray (columns b ! c)]" for args
    unfolding distance_column_def by (rule udf_invoke_distance [OF v col that])
  have "ev e (batch_rows b ! k) = cells (distance_column b c q m) ! k" if k: "k < num_rows b" for k
    using e
  proof
    assume e: "e = EScalarFunction fn [EColumn n c, ELiteral v]"
    then show ?thesis
      using ev_distance [OF fn assms(2,3), where args = "[(EColumn n c, ColArray (columns b ! c)), (ELiteral v, ColScalar v)]" and k = k] inv k
      by simp
  next
    assume e: "e = EScalarFunction fn [ELiteral v, EColumn n c]"
    then show ?thesis
      using ev_distance [OF fn assms(2,3), where args = "[(ELiteral v, ColScalar v), (EColumn n c, ColArray (columns b ! c))]" and k = k] inv k
      by simp
  qed
  moreover have "length (cells (distance_column b c q m)) = num_rows b" using col(2) by (simp add: distance_column_def)
  ultimately have "map (ev e) (batch_rows b) = cells (distance_column b c q m)" by (intro nth_equalityI) simp_all
  then show ?thesis by (simp add: distance_column_def float32_array_def)
qed

lemma vector_refines:
  assumes "passes_through (plan_schema i) es" and "distance_call e = Some (gv_metric g, gv_column g, gv_query g)"
    and "gv_column g < length (plan_schema i)"
    and "vector_dimension (field_type (plan_schema i ! gv_column g)) = Some (length (gv_query g))"
    and "gv_output_name g = name" and "np_schema (gv_props g) = np_schema pr"
  shows "refines step (ProjectionExec i (es @ [(e, name)]) pr) (GpuVectorDistanceExec i g)"
  unfolding refines_def
proof (intro conjI allI impI)
  fix R
  assume "admits step (GpuVectorDistanceExec i g) R"
  then obtain S where S: "admits step i S"
    and app: "appended_rows near (\<lambda>b. distance_column b (gv_column g) (gv_query g) (gv_metric g)) name (plan_schema i) S R"
    unfolding admits_gpu_vector assms(5) by blast
  have "appended_rows near (\<lambda>b. \<lparr>arr_type = Float32, cells = map (ev e) (batch_rows b)\<rparr>) name (plan_schema i) S R"
  proof -
    obtain bs bs' where bs: "batches_of (plan_schema i) bs" "rows_of bs = S" "R = rows_of bs'"
      and near: "list_all2 (\<lambda>b b'. \<exists>c. near (distance_column b (gv_column g) (gv_query g) (gv_metric g)) c \<and> b' = append_column b name c) bs bs'"
      using app unfolding appended_rows_def by blast
    have "\<lparr>arr_type = Float32, cells = map (ev e) (batch_rows b)\<rparr> = distance_column b (gv_column g) (gv_query g) (gv_metric g)"
      if "b \<in> set bs" for b
      using distance_call_cells [OF assms(2), of b] bs(1) that assms(3,4) batch_ok_length [of b]
      by (auto simp: batches_of_def list_all_iff)
    then have "list_all2 (\<lambda>b b'. \<exists>c. near \<lparr>arr_type = Float32, cells = map (ev e) (batch_rows b)\<rparr> c \<and> b' = append_column b name c) bs bs'"
      using near by (auto simp: list_all2_conv_all_nth)
    then show ?thesis unfolding appended_rows_def using bs by blast
  qed
  then have "df_step (ProjectionExec i (es @ [(e, name)]) pr) [S] R" by (rule distance_step [OF assms(1)])
  then show "admits step (ProjectionExec i (es @ [(e, name)]) pr) R" by (intro admits_one [OF _ _ S]) simp_all
qed (simp add: assms(6))

lemma lower_vector_distance_refines:
  assumes "lower_vector_distance k i es pr h = (Inr (Some q), h')"
  shows "refines step (ProjectionExec i es pr) q \<and> node_wf q \<and> gpu_node q \<and> children q = [i]"
proof -
  obtain m c query g where es: "es \<noteq> []" "passes_through (plan_schema i) (butlast es)"
    and call: "distance_call (fst (last es)) = Some (m, c, query)"
    and g: "vector_try_new i c query m (snd (last es)) k = Inr g" and pr: "np_schema (gv_props g) = np_schema pr"
    and q: "q = GpuVectorDistanceExec i (g\<lparr>gv_config := instrument h (gv_config g)\<rparr>)"
    using assms by (auto simp: lower_vector_distance_def stays_def split: if_splits option.splits sum.splits fault.splits)
  have split: "es = butlast es @ [(fst (last es), snd (last es))]" using es(1) by simp
  have "refines step (ProjectionExec i (butlast es @ [(fst (last es), snd (last es))]) pr) q"
    using g pr call unfolding q vector_try_new_Inr by (intro vector_refines [OF es(2)]) auto
  then show ?thesis using split g by (auto simp: q vector_try_new_Inr)
qed

end

section \<open>Joins\<close>

lemma join_bag_empty [simp]: "join_bag P f {#} S = {#}" "join_bag P f R {#} = {#}"
  by (simp_all add: join_bag_def)

lemma join_bag_add [simp]: "join_bag P f (add_mset x R) S = image_mset (f x) (filter_mset (P x) S) + join_bag P f R S"
  by (simp add: join_bag_def)

lemma join_bag_add_right:
  "join_bag P f R (add_mset y S) = image_mset (\<lambda>x. f x y) (filter_mset (\<lambda>x. P x y) R) + join_bag P f R S"
  by (induction R) (simp_all add: ac_simps)

lemma join_bag_swap: "join_bag P f R S = join_bag (\<lambda>y x. P x y) (\<lambda>y x. f x y) S R"
  by (induction S) (simp_all add: join_bag_add_right)

lemma join_bag_cong:
  assumes "\<And>x y. x \<in># R \<Longrightarrow> y \<in># S \<Longrightarrow> P x y \<longleftrightarrow> Q x y" and "\<And>x y. x \<in># R \<Longrightarrow> y \<in># S \<Longrightarrow> f x y = g x y"
  shows "join_bag P f R S = join_bag Q g R S"
proof -
  have "image_mset (f x) (filter_mset (P x) S) = image_mset (g x) (filter_mset (Q x) S)" if "x \<in># R" for x
  proof -
    have "filter_mset (P x) S = filter_mset (Q x) S" using assms(1) that by (intro filter_mset_cong) auto
    then show ?thesis using assms(2) that by (auto intro!: image_mset_cong)
  qed
  then show ?thesis unfolding join_bag_def by (intro arg_cong [where f = sum_mset] image_mset_cong)
qed

lemma pick_swap:
  assumes "length x = bl" and "length y = pl" and "\<forall>i \<in> set js. i < bl + pl"
  shows "pick (map (swap_index bl pl) js) (y @ x) = pick js (x @ y)"
  using assms by (auto simp: pick_def swap_index_def nth_append)

text \<open>Swapping the sides of a join and renumbering its columns keeps its rows.\<close>

lemma join_rows_swap:
  assumes "rows_ok bs B" and "rows_ok ps P" and "\<forall>i \<in> set js. i < length bs + length ps"
  shows "join_rows pk bk (map (swap_index (length bs) (length ps)) js) P B = join_rows bk pk js B P"
proof -
  have len: "x \<in># B \<Longrightarrow> length x = length bs" "y \<in># P \<Longrightarrow> length y = length ps" for x y
    using assms(1,2) by (auto simp: rows_ok_def dest: row_ok_length)
  show ?thesis unfolding join_rows_def join_bag_swap [of "keys_match pk bk"]
    by (rule join_bag_cong) (metis keys_match_def, simp add: pick_swap len assms(3))
qed

lemma key_columns_Some:
  assumes "key_columns ls rs on = Inr (Some (lk, rk))"
  obtains n m where "on = [(EColumn n lk, EColumn m rk)]"
  using assms
  by (auto simp: key_columns_def column_index_Some result_simps split: list.splits prod.splits option.splits if_splits)

lemma indices_of_nth: "j < length full \<Longrightarrow> j \<in> set (indices_of full (full ! j))"
  by (simp add: indices_of_def)

lemma projected_indices_own:
  "projected_indices full (map ((!) full) js) = Inr ks \<Longrightarrow> \<forall>j \<in> set js. j < length full \<Longrightarrow> ks = js"
proof (induction js arbitrary: ks)
  case (Cons j js)
  have "j \<in> set (indices_of full (full ! j))" using Cons.prems(2) by (simp add: indices_of_nth)
  then show ?case using Cons by (auto simp: result_simps split: list.splits)
qed simp

context plan_semantics
begin

lemma join_refines:
  assumes j: "plain_inner j" "ji_on j = [(EColumn n bk, EColumn m pk)]"
    and g: "gj_left_key g = pk" "gj_right_key g = bk"
    and sel: "gj_projection g = Some (map (swap_index (length (plan_schema build)) (length (plan_schema probe)))
      (selected_columns (ji_projection j) (length (plan_schema build) + length (plan_schema probe))))"
    and bound: "\<forall>i \<in> set (selected_columns (ji_projection j) (length (plan_schema build) + length (plan_schema probe))).
      i < length (plan_schema build) + length (plan_schema probe)"
    and pr: "np_schema (gj_props g) = np_schema pr"
  shows "refines step (HashJoinExec build probe j pr) (GpuHashJoinExec probe build g)"
  unfolding refines_def
proof (intro conjI allI impI)
  let ?js = "selected_columns (ji_projection j) (length (plan_schema build) + length (plan_schema probe))"
  fix R
  assume "admits step (GpuHashJoinExec probe build g) R"
  then obtain S T where S: "admits step probe S" and T: "admits step build T"
    and ok: "rows_ok (plan_schema probe) S" "rows_ok (plan_schema build) T"
    and R: "R = join_rows pk bk (selected_columns (gj_projection g) (length (plan_schema probe) + length (plan_schema build))) S T"
    unfolding admits_gpu_join g by blast
  have "R = join_rows bk pk ?js T S"
    using join_rows_swap [OF ok(2,1) bound] R by (simp add: sel selected_columns_def [of "Some _"])
  then have "df_step (HashJoinExec build probe j pr) [T, S] R" using hash_join_step [OF j] by simp
  then show "admits step (HashJoinExec build probe j pr) R" by (intro admits_two [OF _ _ T S]) simp_all
qed (simp add: pr)

lemma lower_join_refines:
  assumes "lower_join k build probe j pr h = (Inr (Some q), h')" and "node_wf (HashJoinExec build probe j pr)"
  shows "refines step (HashJoinExec build probe j pr) q \<and> node_wf q \<and> gpu_node q \<and> children q = [probe, build]"
proof -
  let ?bs = "plan_schema build" and ?ps = "plan_schema probe"
  let ?n = "length ?bs + length ?ps"
  have inner: "plain_inner j" using assms(1) by (auto simp: lower_join_def split: if_splits)
  obtain bk pk where keys: "key_columns ?bs ?ps (ji_on j) = Inr (Some (bk, pk))"
    using assms(1) inner by (auto simp: lower_join_def Let_def call_then_Inr split: option.splits)
  let ?dfp = "if ji_projection j \<noteq> None then projected_indices (?bs @ ?ps) (np_schema pr) else Inr [0..<?n]"
  obtain dfp where dfp: "?dfp = Inr dfp"
    using assms(1) inner keys by (cases ?dfp) (simp_all add: lower_join_def Let_def stays_def)
  obtain g where g: "and_then (join_try_new probe build pk bk k) (with_projection probe build (Some (map (swap_index (length ?bs) (length ?ps)) dfp))) = Inr g"
    and pr: "np_schema (gj_props g) = np_schema pr"
    and q: "q = GpuHashJoinExec probe build (g\<lparr>gj_config := instrument h (gj_config g)\<rparr>)"
    using assms(1) inner keys dfp by (simp add: lower_join_def Let_def call_then_Inr) (auto split: if_splits)
  have sel: "dfp = selected_columns (ji_projection j) ?n \<and> (\<forall>i \<in> set dfp. i < ?n)"
  proof (cases "ji_projection j")
    case (Some js)
    then have "(\<forall>i \<in> set js. i < ?n) \<and> np_schema pr = map ((!) (?bs @ ?ps)) js" using assms(2) by (simp add: schema_project_Inr)
    then show ?thesis using dfp Some projected_indices_own [of "?bs @ ?ps" js dfp] by (simp add: selected_columns_def)
  qed (use dfp in \<open>auto simp: selected_columns_def\<close>)
  obtain n m where on: "ji_on j = [(EColumn n bk, EColumn m pk)]" using keys by (rule key_columns_Some)
  have "refines step (HashJoinExec build probe j pr) q"
    using g pr sel unfolding q and_then_Inr
    by (intro join_refines [OF inner on]) (auto simp: join_try_new_Inr with_projection_Inr)
  then show ?thesis using g by (auto simp: q and_then_Inr join_try_new_Inr with_projection_Inr selected_columns_def)
qed

lemma strip_sort_refines:
  "plan_wf p \<Longrightarrow> refines step p (strip_sort p) \<and> plan_wf (strip_sort p)"
proof (cases p)
  case (SortExec i sk n pr)
  assume wf: "plan_wf p"
  then have i: "plan_wf i" "np_schema pr = plan_schema i" using SortExec by (simp_all add: plan_wf.simps [of "SortExec i sk n pr"])
  show ?thesis
  proof (cases n)
    case None
    have "admits step p R" if "admits step i R" for R
      using admits_one [OF _ _ that, of p] sort_step SortExec None by simp
    then show ?thesis using SortExec None i by (simp add: strip_sort_def refines_def)
  qed (use SortExec wf in \<open>simp add: strip_sort_def\<close>)
qed (simp_all add: strip_sort_def)

lemma merge_join_refines:
  assumes j: "plain_inner j" "ji_on j = [(EColumn n lk, EColumn m rk)]"
    and g: "gj_left_key g = lk" "gj_right_key g = rk" "gj_projection g = None"
    and l: "refines step l l'" and r: "refines step r r'" and pr: "np_schema (gj_props g) = np_schema pr"
  shows "refines step (SortMergeJoinExec l r j pr) (GpuHashJoinExec l' r' g)"
  unfolding refines_def
proof (intro conjI allI impI)
  fix R
  assume "admits step (GpuHashJoinExec l' r' g) R"
  then obtain S T where S: "admits step l' S" and T: "admits step r' T"
    and R: "R = join_rows lk rk (selected_columns None (length (plan_schema l') + length (plan_schema r'))) S T"
    unfolding admits_gpu_join g by blast
  have S': "admits step l S" and T': "admits step r T" using S T l r by (simp_all add: refines_def)
  have "df_step (SortMergeJoinExec l r j pr) [S, T] R"
    using merge_join_step [OF j, of l r pr S T] R l r by (simp add: selected_columns_def refines_def)
  then show "admits step (SortMergeJoinExec l r j pr) R" by (intro admits_two [OF _ _ S' T']) simp_all
qed (simp add: pr)

lemma lower_sort_merge_join_refines:
  assumes "lower_sort_merge_join k l r j pr h = (Inr (Some q), h')" and "plan_wf l" and "plan_wf r"
  shows "refines step (SortMergeJoinExec l r j pr) q \<and> node_wf q \<and> gpu_node q \<and> children q = [strip_sort l, strip_sort r]"
proof -
  obtain lk rk g where inner: "plain_inner j"
    and keys: "key_columns (plan_schema (strip_sort l)) (plan_schema (strip_sort r)) (ji_on j) = Inr (Some (lk, rk))"
    and g: "join_try_new (strip_sort l) (strip_sort r) lk rk k = Inr g" and pr: "np_schema (gj_props g) = np_schema pr"
    and q: "q = GpuHashJoinExec (strip_sort l) (strip_sort r) (g\<lparr>gj_config := instrument h (gj_config g)\<rparr>)"
    using assms(1) by (auto simp: lower_sort_merge_join_def Let_def stays_def call_then_Inr split: if_splits option.splits)
  obtain n m where on: "ji_on j = [(EColumn n lk, EColumn m rk)]" using keys by (rule key_columns_Some)
  have "refines step (SortMergeJoinExec l r j pr) q"
    using g pr strip_sort_refines [OF assms(2)] strip_sort_refines [OF assms(3)] unfolding q
    by (intro merge_join_refines [OF inner on]) (auto simp: join_try_new_Inr)
  moreover have "schema_project (xs @ ys) [0..<length xs + length ys] = Inr (xs @ ys)" for xs ys :: "field list"
    unfolding schema_project_Inr using map_nth [of "xs @ ys"] by auto
  ultimately show ?thesis using g by (auto simp: q join_try_new_Inr selected_columns_def)
qed

end

section \<open>Aggregation\<close>

lemma aggregate_function_of_Some: "aggregate_function_of name = Some f \<longleftrightarrow> name = sql_name f"
  by (cases f) (auto simp: aggregate_function_of_def split: if_splits)

lemma lower_aggregate_expr_computes: "lower_aggregate_expr fs e = Inr (Inr a) \<Longrightarrow> computes fs e a"
  by (auto simp: lower_aggregate_expr_def computes_def aggregate_function_of_Some gpu_eligible_scalar_def result_simps schema_field_def
      split: option.splits if_splits list.splits)

lemma lower_aggregates_computes: "lower_aggregates fs es = Inr (Inr as) \<Longrightarrow> list_all2 (computes fs) es as"
proof (induction es arbitrary: as)
  case (Cons e es)
  then obtain r where r: "lower_aggregate_expr fs e = Inr r" by (auto simp: and_then_Inr)
  then obtain a as' where "lower_aggregate_expr fs e = Inr (Inr a)" "lower_aggregates fs es = Inr (Inr as')" "as = a # as'"
    using Cons.prems by (cases r) (auto simp: map_res_Inr eq_commute [of "Inr as"])
  then show ?case using Cons.IH lower_aggregate_expr_computes by simp
qed simp

lemma lowered_spec_plain:
  assumes "try_lower_aggregate_spec i agg = Inr (Inr spec)"
  shows "plain_aggregation (plan_schema i) agg spec"
proof -
  have g: "ag_single_set agg" "ag_null_exprs agg = []" "length (ag_group agg) = 1"
    using assms by (auto simp: try_lower_aggregate_spec_def split: if_splits)
  then obtain e n where group: "ag_group agg = [(e, n)]" by (cases "ag_group agg") auto
  obtain k where k: "column_index e = Some k"
    using assms g group by (auto simp: try_lower_aggregate_spec_def split: option.splits)
  have key: "k < length (plan_schema i)" "field_type (plan_schema i ! k) = Int64" "list_all (\<lambda>f. f = None) (ag_filters agg)"
    using assms g group k
    by (auto simp: try_lower_aggregate_spec_def result_simps schema_field_def list_ex_iff list_all_iff split: if_splits)
  then have "\<not> list_ex (\<lambda>f. f \<noteq> None) (ag_filters agg)" by (auto simp: list_ex_iff list_all_iff)
  then obtain as where "lower_aggregates (plan_schema i) (ag_aggrs agg) = Inr (Inr as)" "spec = \<lparr>group_by = k, aggregates = as\<rparr>"
    using assms g group k key(1,2)
    by (auto simp: try_lower_aggregate_spec_def result_simps schema_field_def eq_commute [of "Inr spec"])
  then show ?thesis using g group k key lower_aggregates_computes by (simp add: plain_aggregation_def)
qed

lemma exchange_half_Some:
  "exchange_half p = Some a \<longleftrightarrow> (\<exists>s pr. through_exchanges p = AggregateExec s a pr \<and> ag_mode a = ModePartial)"
  by (induction p rule: exchange_half.induct) auto

lemma coalesced_props [simp]: "plan_schema (coalesced p) = plan_schema p"
  by (simp add: coalesced_def)

lemma plan_wf_coalesced: "plan_wf p \<Longrightarrow> plan_wf (coalesced p)"
  by (auto simp: coalesced_def plan_wf.simps [of "CoalescePartitionsExec _ _"])

lemma plan_wf_through: "plan_wf p \<Longrightarrow> plan_wf (through_exchanges p)"
  by (induction p rule: through_exchanges.induct)
    (auto simp: plan_wf.simps [of "CoalescePartitionsExec _ _"] plan_wf.simps [of "RepartitionExec _ _ _"])

lemma aggregate_source_cases:
  assumes "aggregate_source i agg = Some (src, half)"
  obtains "ag_mode agg = ModeSingle \<or> ag_mode agg = ModeSinglePartitioned" and "src = i" and "half = agg"
  | pr where "ag_mode agg = ModeFinal \<or> ag_mode agg = ModeFinalPartitioned" and "through_exchanges i = AggregateExec src half pr"
    and "ag_mode half = ModePartial"
  using assms by (auto simp: aggregate_source_def split: agg_mode.splits plan.splits if_splits)

context plan_semantics
begin

lemma admits_coalesced: "admits step (coalesced p) R \<Longrightarrow> admits step p R"
  by (auto simp: coalesced_def admits_df ex_list1 coalesce_step split: if_splits)

lemma admits_exchanges: "admits step (through_exchanges p) R \<Longrightarrow> admits step p R"
  by (induction p rule: through_exchanges.induct)
    (auto simp: admits_df [of "RepartitionExec _ _ _"] admits_df [of "CoalescePartitionsExec _ _"] ex_list1 coalesce_step
      intro: repartition_step)

lemma aggregate_refines:
  assumes wf: "plan_wf (AggregateExec i agg pr)" and src: "aggregate_source i agg = Some (src, half)"
    and spec: "try_lower_aggregate_spec src half = Inr (Inr spec)" and g: "ga_spec g = spec" "np_schema (ga_props g) = np_schema pr"
  shows "refines step (AggregateExec i agg pr) (GpuAggregateExec (coalesced src) g)"
  unfolding refines_def
proof (intro conjI allI impI)
  fix R
  assume "admits step (GpuAggregateExec (coalesced src) g) R"
  then obtain S where S: "admits step src S" and agg: "agg_rows agrees (plan_schema src) spec S R"
    unfolding admits_gpu_aggregate g coalesced_props using admits_coalesced by blast
  note plain = lowered_spec_plain [OF spec]
  have node: "node_wf (AggregateExec i agg pr)" using wf by (simp add: plan_wf.simps [of "AggregateExec _ _ _"])
  show "admits step (AggregateExec i agg pr) R"
    using src
  proof (cases rule: aggregate_source_cases)
    case 1
    then have "df_step (AggregateExec i agg pr) [S] R" using node plain agg by (intro single_step) auto
    then show ?thesis using 1 by (intro admits_one [OF _ _ S]) simp_all
  next
    case (2 prp)
    have half: "exchange_half i = Some half" using 2 by (auto simp: exchange_half_Some)
    have "plan_wf (AggregateExec src half prp)" using plan_wf_through [of i] wf 2 by (simp add: plan_wf.simps [of "AggregateExec i agg pr"])
    then have ext: "int_extrema (plan_schema src) half" using 2(3) by (simp add: plan_wf.simps [of "AggregateExec _ _ _"])
    have match: "halves_match half agg" using node half 2(1) by auto
    obtain P where P: "df_step (AggregateExec src half prp) [S] P" "df_step (AggregateExec i agg pr) [P] R"
      using two_phase_step [OF 2(1,3) match plain ext agg] by blast
    have "admits step (AggregateExec src half prp) P" using P(1) by (intro admits_one [OF _ _ S]) simp_all
    then have i: "admits step i P" using admits_exchanges 2(2) by simp
    show ?thesis using P(2) by (intro admits_one [OF _ _ i]) simp_all
  qed
qed (simp add: g(2))

lemma lower_aggregate_refines:
  assumes "lower_aggregate k i agg pr h = (Inr (Some q), h')" and "plan_wf (AggregateExec i agg pr)"
  shows "refines step (AggregateExec i agg pr) q \<and> plan_wf q \<and> gpu_node q"
proof -
  obtain src half where src: "aggregate_source i agg = Some (src, half)"
    using assms(1) by (auto simp: lower_aggregate_def split: option.splits)
  obtain lowered where lowered: "try_lower_aggregate_spec src half = Inr lowered"
    using assms(1) src by (auto simp: lower_aggregate_def call_then_Inr)
  then obtain spec where spec: "try_lower_aggregate_spec src half = Inr (Inr spec)"
    using assms(1) src by (cases lowered) (auto simp: lower_aggregate_def)
  obtain g where g: "aggregate_try_new (coalesced src) spec k = Inr g"
    using assms(1) src spec by (auto simp: lower_aggregate_def Let_def call_then_Inr)
  obtain g' where g': "with_output_schema (np_schema pr) g = Inr g'"
    and q: "q = GpuAggregateExec (coalesced src) (g'\<lparr>ga_config := instrument h (ga_config g')\<rparr>)"
    using assms(1) src spec g by (auto simp: lower_aggregate_def Let_def split: sum.splits fault.splits)
  have "plan_wf src" using src
  proof (cases rule: aggregate_source_cases)
    case 1
    then show ?thesis using assms(2) by (simp add: plan_wf.simps [of "AggregateExec _ _ _"])
  next
    case (2 prp)
    then show ?thesis using assms(2) plan_wf_through [of i]
      by (simp add: plan_wf.simps [of "AggregateExec i agg pr"] plan_wf.simps [of "AggregateExec src half prp"])
  qed
  then have "plan_wf q" using with_output_schema_Inr [OF g'] aggregate_try_new_Inr [OF g]
    by (auto simp: q plan_wf.simps [of "GpuAggregateExec _ _"] plan_wf_coalesced)
  moreover have "refines step (AggregateExec i agg pr) q"
    unfolding q using with_output_schema_Inr [OF g'] aggregate_try_new_Inr [OF g]
    by (intro aggregate_refines [OF assms(2) src spec]) simp_all
  ultimately show ?thesis by (simp add: q)
qed

end

section \<open>The traversal\<close>

text \<open>What the rewriting of a plan keeps.\<close>

definition placed_as :: "(plan \<Rightarrow> row multiset list \<Rightarrow> row multiset \<Rightarrow> bool) \<Rightarrow> plan \<Rightarrow> plan \<Rightarrow> bool" where
  "placed_as step p q \<longleftrightarrow> refines step p q \<and> plan_wf q \<and> (exchange_half q = exchange_half p \<or> exchange_half q = None)"

lemma placed_as_schemas: "list_all2 (placed_as step) cs ds \<Longrightarrow> map plan_schema ds = map plan_schema cs"
  by (induction rule: list_all2_induct) (simp_all add: placed_as_def refines_def)

lemma placed_as_wf: "list_all2 (placed_as step) cs ds \<Longrightarrow> list_all plan_wf ds"
  by (induction rule: list_all2_induct) (simp_all add: placed_as_def)

lemma placed_as_admits:
  "list_all2 (placed_as step) cs ds \<Longrightarrow> list_all2 (admits step) ds Rs \<Longrightarrow> list_all2 (admits step) cs Rs"
  by (induction arbitrary: Rs rule: list_all2_induct) (auto simp: list_all2_Cons1 placed_as_def refines_def)

lemma gpu_exchange_half: "gpu_node p \<Longrightarrow> exchange_half p = None"
  by (cases p) simp_all

lemma rebuilt_node_wf:
  assumes "\<not> gpu_node p" and "with_new_children D p cs = Inr p'"
    and "list_all2 (\<lambda>c d. plan_schema d = plan_schema c \<and> (exchange_half d = exchange_half c \<or> exchange_half d = None))
      (children p) cs"
    and "plan_schema p' = plan_schema p" and "node_wf p"
  shows "node_wf p' \<and> (exchange_half p' = exchange_half p \<or> exchange_half p' = None)"
proof (cases p)
  case (HashJoinExec l r j pr)
  then show ?thesis using assms by (auto simp: list_all2_Cons1 result_simps split: option.splits)
qed (use assms in \<open>auto simp: list_all2_Cons1 result_simps\<close>)

text \<open>A node of OxideLake over new children of the same schemas has its attributes and its schema.\<close>

lemma filter_rebuilt:
  assumes "filter_rebuild g i' = Inr g'" and "plan_schema i' = plan_schema i" and "node_wf (GpuFilterExec i g)"
  shows "gf_predicate g' = gf_predicate g \<and> gf_projection g' = gf_projection g \<and> np_schema (gf_props g') = np_schema (gf_props g)"
  using assms by (auto simp: filter_rebuild_def map_res_Inr filter_try_new_Inr)

lemma join_rebuilt:
  assumes "join_rebuild g l' r' = Inr g'" and "plan_schema l' = plan_schema l" and "plan_schema r' = plan_schema r"
    and "node_wf (GpuHashJoinExec l r g)"
  shows "gj_left_key g' = gj_left_key g \<and> gj_right_key g' = gj_right_key g \<and> gj_projection g' = gj_projection g
    \<and> np_schema (gj_props g') = np_schema (gj_props g)"
proof -
  have "map ((!) (xs @ ys)) [0..<length xs + length ys] = xs @ ys" for xs ys :: "field list"
    using map_nth [of "xs @ ys"] by simp
  then show ?thesis using assms
    by (cases "gj_projection g")
      (auto simp: join_rebuild_def map_res_Inr and_then_Inr join_try_new_Inr with_projection_Inr schema_project_Inr selected_columns_def)
qed

lemma aggregate_rebuilt:
  assumes "aggregate_rebuild g i' = Inr g'"
  shows "(\<exists>fs. aggregate_output_schema (plan_schema i') (ga_spec g) = Inr fs) \<and> ga_spec g' = ga_spec g \<and> np_schema (ga_props g') = np_schema (ga_props g)"
  using assms by (auto simp: aggregate_rebuild_def map_res_Inr and_then_Inr dest!: with_output_schema_Inr aggregate_try_new_Inr)

lemma vector_rebuilt:
  assumes "vector_rebuild g i' = Inr g'" and "plan_schema i' = plan_schema i" and "node_wf (GpuVectorDistanceExec i g)"
  shows "gv_column g' = gv_column g \<and> gv_query g' = gv_query g \<and> gv_metric g' = gv_metric g \<and> gv_output_name g' = gv_output_name g
    \<and> np_schema (gv_props g') = np_schema (gv_props g)"
  using assms by (auto simp: vector_rebuild_def map_res_Inr vector_try_new_Inr)

context plan_semantics
begin

lemma rebuilt_gpu:
  assumes "gpu_node p" and "with_new_children D p cs = Inr p'" and "map plan_schema cs = map plan_schema (children p)"
    and "node_wf p"
  shows "gpu_node p' \<and> children p' = cs \<and> plan_schema p' = plan_schema p \<and> node_wf p' \<and>
    (\<forall>Rs R. gpu_step agrees near p' Rs R \<longrightarrow> gpu_step agrees near p Rs R)"
proof (cases p)
  case (GpuFilterExec i g)
  then obtain i' where cs: "cs = [i']" "plan_schema i' = plan_schema i" using assms(3) by (auto simp: map_eq_Cons_conv)
  obtain g' where g': "filter_rebuild g i' = Inr g'" and p': "p' = GpuFilterExec i' g'"
    using assms(2) GpuFilterExec cs by (auto simp: map_res_Inr)
  have "gpu_step agrees near (GpuFilterExec i' g') Rs R \<longrightarrow> gpu_step agrees near (GpuFilterExec i g) Rs R" for Rs R
    using filter_rebuilt [OF g' cs(2)] assms(4) GpuFilterExec cs by (cases Rs rule: list_shape) auto
  then show ?thesis using filter_rebuilt [OF g' cs(2)] assms(4) GpuFilterExec cs p' by simp
next
  case (GpuHashJoinExec l r g)
  then obtain l' r' where cs: "cs = [l', r']" "plan_schema l' = plan_schema l" "plan_schema r' = plan_schema r"
    using assms(3) by (auto simp: map_eq_Cons_conv)
  obtain g' where g': "join_rebuild g l' r' = Inr g'" and p': "p' = GpuHashJoinExec l' r' g'"
    using assms(2) GpuHashJoinExec cs by (auto simp: map_res_Inr)
  have "gpu_step agrees near (GpuHashJoinExec l' r' g') Rs R \<longrightarrow> gpu_step agrees near (GpuHashJoinExec l r g) Rs R" for Rs R
    using join_rebuilt [OF g' cs(2,3)] assms(4) GpuHashJoinExec cs by (cases Rs rule: list_shape) auto
  then show ?thesis using join_rebuilt [OF g' cs(2,3)] assms(4) GpuHashJoinExec cs p' by simp
next
  case (GpuAggregateExec i g)
  then obtain i' where cs: "cs = [i']" "plan_schema i' = plan_schema i" using assms(3) by (auto simp: map_eq_Cons_conv)
  obtain g' where g': "aggregate_rebuild g i' = Inr g'" and p': "p' = GpuAggregateExec i' g'"
    using assms(2) GpuAggregateExec cs by (auto simp: map_res_Inr)
  have "gpu_step agrees near (GpuAggregateExec i' g') Rs R \<longrightarrow> gpu_step agrees near (GpuAggregateExec i g) Rs R" for Rs R
    using aggregate_rebuilt [OF g'] cs by (cases Rs rule: list_shape) auto
  then show ?thesis using aggregate_rebuilt [OF g'] GpuAggregateExec cs p' by auto
next
  case (GpuVectorDistanceExec i g)
  then obtain i' where cs: "cs = [i']" "plan_schema i' = plan_schema i" using assms(3) by (auto simp: map_eq_Cons_conv)
  obtain g' where g': "vector_rebuild g i' = Inr g'" and p': "p' = GpuVectorDistanceExec i' g'"
    using assms(2) GpuVectorDistanceExec cs by (auto simp: map_res_Inr)
  have "gpu_step agrees near (GpuVectorDistanceExec i' g') Rs R \<longrightarrow> gpu_step agrees near (GpuVectorDistanceExec i g) Rs R" for Rs R
    using vector_rebuilt [OF g' cs(2)] assms(4) GpuVectorDistanceExec cs by (cases Rs rule: list_shape) auto
  then show ?thesis using vector_rebuilt [OF g' cs(2)] assms(4) GpuVectorDistanceExec cs p' by simp
qed (use assms(1) in simp_all)

lemma new_children_placed:
  assumes "plan_wf p" and "list_all2 (placed_as step) (children p) cs" and "with_new_children D p cs = Inr p'"
  shows "placed_as step p p'"
proof (cases "gpu_node p")
  case True
  have "node_wf p" using assms(1) by (simp add: plan_wf.simps [of p])
  then have r: "gpu_node p'" "children p' = cs" "plan_schema p' = plan_schema p" "node_wf p'"
    "\<forall>Rs R. gpu_step agrees near p' Rs R \<longrightarrow> gpu_step agrees near p Rs R"
    using rebuilt_gpu [OF True assms(3) placed_as_schemas [OF assms(2)]] by simp_all
  have "admits step p R" if "admits step p' R" for R
    using that placed_as_admits [OF assms(2)] r unfolding admits_gpu [OF True] admits_gpu [OF r(1)] by blast
  then show ?thesis using r placed_as_wf [OF assms(2)] gpu_exchange_half [OF r(1)]
    by (simp add: placed_as_def refines_def plan_wf.simps [of p'])
next
  case False
  note r = rebuilt_df [OF False assms(3)]
  then have s: "plan_schema p' = plan_schema p" using props_schema placed_as_schemas [OF assms(2)] by blast
  have "admits step p R" if adm: "admits step p' R" for R
  proof -
    have "\<not> gpu_node p'" and cs: "children p' = cs" using r by simp_all
    then obtain Rs where "list_all2 (admits step) cs Rs" "df_step p' Rs R"
      using adm unfolding admits_df [OF \<open>\<not> gpu_node p'\<close>] cs by blast
    then have "list_all2 (admits step) (children p) Rs" "df_step p Rs R"
      using placed_as_admits [OF assms(2)] step_children [OF False assms(3) placed_as_schemas [OF assms(2)]] by blast+
    then show ?thesis unfolding admits_df [OF False] by blast
  qed
  moreover have "node_wf p' \<and> (exchange_half p' = exchange_half p \<or> exchange_half p' = None)"
    using assms(1,2) s by (intro rebuilt_node_wf [OF False assms(3)])
      (auto simp: plan_wf.simps [of p] placed_as_def refines_def elim!: list_all2_mono)
  ultimately show ?thesis using s r placed_as_wf [OF assms(2)] by (simp add: placed_as_def refines_def plan_wf.simps [of p'])
qed

lemma or_else_Inr:
  "or_else m rest h = (Inr (q, t), h') \<longleftrightarrow> (\<exists>h1. m h = (Inr (Some q), h') \<and> t \<or> m h = (Inr None, h1) \<and> rest h1 = (Inr (q, t), h'))"
  by (auto simp: or_else_def call_then_def pure_call_def split: prod.splits sum.splits option.splits)

lemma lowered_placed:
  assumes "refines step p q \<and> node_wf q \<and> gpu_node q" and "list_all plan_wf (children q)"
  shows "placed_as step p q"
  using assms gpu_exchange_half [of q] by (simp add: placed_as_def plan_wf.simps [of q])

lemma rewrite_placed:
  assumes "plan_wf p" and "rewrite D k p h = (Inr (q, t), h')"
  shows "placed_as step p q"
proof -
  have self: "placed_as step p p" using assms(1) by (simp add: placed_as_def)
  have wf: "node_wf p" "list_all plan_wf (children p)" using assms(1) by (simp_all add: plan_wf.simps [of p])
  show ?thesis
  proof (cases p)
    case (FilterExec i e js pr)
    have "placed_as step p q" if "lower_filter D k i e js pr h0 = (Inr (Some q), h1)" for h0 h1
      using lower_filter_refines [OF that] wf FilterExec by (intro lowered_placed) simp_all
    then show ?thesis using FilterExec assms(2) self by (auto simp: rewrite_def or_else_Inr)
  next
    case (ProjectionExec i es pr)
    have "placed_as step p q" if "fuse_projection k i es pr h0 = (Inr (Some q), h1)" for h0 h1
    proof -
      note r = fuse_projection_refines [OF that]
      then obtain s g where sg: "i = GpuFilterExec s g" "children q = [s]" by blast
      then have "plan_wf s" using wf ProjectionExec by (simp add: plan_wf.simps [of "GpuFilterExec s g"])
      then show ?thesis using r sg ProjectionExec by (intro lowered_placed) simp_all
    qed
    moreover have "placed_as step p q" if "lower_vector_distance k i es pr h0 = (Inr (Some q), h1)" for h0 h1
      using lower_vector_distance_refines [OF that] wf ProjectionExec by (intro lowered_placed) simp_all
    ultimately show ?thesis using ProjectionExec assms(2) self by (auto simp: rewrite_def or_else_Inr)
  next
    case (HashJoinExec l r j pr)
    have "placed_as step p q" if "lower_join k l r j pr h0 = (Inr (Some q), h1)" for h0 h1
      using lower_join_refines [OF that] wf HashJoinExec by (intro lowered_placed) simp_all
    then show ?thesis using HashJoinExec assms(2) self by (auto simp: rewrite_def or_else_Inr)
  next
    case (SortMergeJoinExec l r j pr)
    have "placed_as step p q" if "lower_sort_merge_join k l r j pr h0 = (Inr (Some q), h1)" for h0 h1
      using lower_sort_merge_join_refines [OF that] wf strip_sort_refines [of l] strip_sort_refines [of r] SortMergeJoinExec
      by (intro lowered_placed) simp_all
    then show ?thesis using SortMergeJoinExec assms(2) self by (auto simp: rewrite_def or_else_Inr)
  next
    case (AggregateExec i agg pr)
    have "placed_as step p q" if "lower_aggregate k i agg pr h0 = (Inr (Some q), h1)" for h0 h1
      using lower_aggregate_refines [OF that] assms(1) AggregateExec gpu_exchange_half [of q] by (simp add: placed_as_def)
    then show ?thesis using AggregateExec assms(2) self by (auto simp: rewrite_def or_else_Inr)
  qed (use assms(2) self in \<open>simp_all add: rewrite_def\<close>)
qed

end

lemma collect_call_Inr:
  assumes "collect_call f xs w = (Inr ys, w')" and "\<And>x y w w'. x \<in> set xs \<Longrightarrow> f x w = (Inr y, w') \<Longrightarrow> Q x y"
  shows "list_all2 Q xs ys"
  using assms
proof (induction xs arbitrary: ys w)
  case (Cons x xs)
  then obtain y w1 zs where y: "f x w = (Inr y, w1)" and zs: "collect_call f xs w1 = (Inr zs, w')" and ys: "ys = y # zs"
    by (auto simp: call_then_Inr)
  have "Q x y" using Cons.prems(2) [OF _ y] by simp
  moreover have "list_all2 Q xs zs" using Cons.IH [OF zs] Cons.prems(2) by simp
  ultimately show ?case using ys by simp
qed simp

lemma transform_up_Inr:
  assumes "transform_up D f p h = (Inr (q, t), h')"
  obtains cs h1 p' t' where "collect_call (transform_up D f) (children p) h = (Inr cs, h1)"
    and "(if list_ex snd cs then with_new_children D p (map fst cs) else Inr p) = Inr p'"
    and "f p' h1 = (Inr (q, t'), h')" and "t = (list_ex snd cs \<or> t')"
proof -
  from assms obtain cs h1 where cs: "collect_call (transform_up D f) (children p) h = (Inr cs, h1)"
    and rest: "call_then (if list_ex snd cs then pure_call (with_new_children D p (map fst cs)) else pure_call (Inr p))
      (\<lambda>p'. call_then (f p') (\<lambda>(q, t). pure_call (Inr (q, list_ex snd cs \<or> t)))) h1 = (Inr (q, t), h')"
    unfolding transform_up.simps [of D f p] call_then_Inr [of "collect_call _ _"] Let_def by blast
  then show ?thesis by (cases "list_ex snd cs") (auto simp: call_then_Inr intro: that)
qed

context plan_semantics
begin

lemma transform_up_placed:
  assumes "plan_wf p" and "transform_up D f p h = (Inr (q, t), h')"
    and f: "\<And>p h q t h'. plan_wf p \<Longrightarrow> f p h = (Inr (q, t), h') \<Longrightarrow> placed_as step p q"
  shows "placed_as step p q"
  using assms(1,2)
proof (induction p arbitrary: h q t h' rule: measure_induct_rule [of size])
  case (less p)
  obtain cs h1 p' t' where cs: "collect_call (transform_up D f) (children p) h = (Inr cs, h1)"
    and p': "(if list_ex snd cs then with_new_children D p (map fst cs) else Inr p) = Inr p'"
    and q: "f p' h1 = (Inr (q, t'), h')"
    using less.prems(2) by (rule transform_up_Inr)
  have wf: "\<forall>c \<in> set (children p). plan_wf c" using less.prems(1) by (simp add: plan_wf.simps [of p] list_all_iff)
  have "list_all2 (\<lambda>c d. placed_as step c (fst d)) (children p) cs"
  proof (rule collect_call_Inr [OF cs])
    fix c d w w'
    assume "c \<in> set (children p)" and "transform_up D f c w = (Inr d, w')"
    then show "placed_as step c (fst d)" using less.IH [of c w "fst d" "snd d" w'] wf size_children by auto
  qed
  then have children: "list_all2 (placed_as step) (children p) (map fst cs)" by (simp add: list_all2_map2)
  have "placed_as step p p'"
  proof (cases "list_ex snd cs")
    case True
    then show ?thesis using p' new_children_placed [OF less.prems(1) children] by simp
  qed (use p' less.prems(1) in \<open>simp add: placed_as_def\<close>)
  moreover from this have "placed_as step p' q" using f [OF _ q] by (simp add: placed_as_def [of _ p])
  ultimately show ?case using refines_trans by (auto simp: placed_as_def)
qed

lemma optimize_placed:
  assumes "plan_wf p" and "optimize D k p h = (Inr q, h')"
  shows "placed_as step p q"
proof (cases "is_gpu k")
  case True
  then obtain t where "transform_up D (rewrite D k) p h = (Inr (q, t), h')"
    using assms(2) by (auto simp: optimize_def call_then_Inr)
  then show ?thesis using rewrite_placed by (rule transform_up_placed [OF assms(1)])
qed (use assms in \<open>simp add: optimize_def placed_as_def\<close>)

lemma rewrite_distance_placed:
  assumes "plan_wf p" and "rewrite_distance k p h = (Inr (q, t), h')"
  shows "placed_as step p q"
proof (cases p)
  case (ProjectionExec i es pr)
  have "placed_as step p q" if "lower_vector_distance k i es pr h0 = (Inr (Some q), h1)" for h0 h1
    using lower_vector_distance_refines [OF that] assms(1) ProjectionExec
    by (intro lowered_placed) (simp_all add: plan_wf.simps [of "ProjectionExec i es pr"])
  then show ?thesis using ProjectionExec assms by (auto simp: rewrite_distance_def or_else_Inr placed_as_def)
qed (use assms in \<open>simp_all add: rewrite_distance_def placed_as_def\<close>)

lemma optimize_distance_placed:
  assumes "plan_wf p" and "optimize_distance D k p h = (Inr q, h')"
  shows "placed_as step p q"
proof (cases "is_gpu k")
  case True
  then obtain t where "transform_up D (rewrite_distance k) p h = (Inr (q, t), h')"
    using assms(2) by (auto simp: optimize_distance_def call_then_Inr)
  then show ?thesis using rewrite_distance_placed by (rule transform_up_placed [OF assms(1)])
qed (use assms in \<open>simp add: optimize_distance_def placed_as_def\<close>)

end

section \<open>Refusals that stop the planning\<close>

lemma predicate_too_large:
  assumes "try_lower_predicate D (plan_schema i) e = Inr p" and "leaf_count p > MAX_PREDICATE_LEAVES"
  shows "rewrite D k (FilterExec i e js pr) h = (plan_err [Txt ''GpuFilterExec predicate has '', Num (leaf_count p),
    Txt '' comparisons; at most '', Num MAX_PREDICATE_LEAVES, Txt '' are supported''], h)"
  using assms by (simp add: rewrite_def lower_filter_def or_else_def filter_try_new_def validate_predicate_def Let_def
      plan_err_def call_then_def pure_call_def)

section \<open>A plan to place\<close>

text \<open>\<open>SELECT k, SUM(v) FROM t WHERE 5 < k GROUP BY k\<close> over four partitions, aggregated in two phases.\<close>

definition scan_schema :: "field list" where
  "scan_schema = [Field ''k'' Int64 True, Field ''v'' Float64 True]"

definition sum_schema :: "field list" where
  "sum_schema = [Field ''k'' Int64 True, Field ''sum(t.v)'' Float64 True]"

definition sample_scan :: plan where
  "sample_scan = OtherExec ''DataSourceExec'' [] \<lparr>np_schema = scan_schema, np_partitions = 4\<rparr>"

definition sample_agg :: "agg_mode \<Rightarrow> agg_info" where
  "sample_agg mode = \<lparr>ag_mode = mode, ag_group = [(EColumn ''k'' 0, ''k'')], ag_single_set = True, ag_null_exprs = [],
     ag_aggrs = [\<lparr>ae_fun = ''sum'', ae_distinct = False, ae_args = [EColumn ''v'' 1]\<rparr>], ag_filters = [None]\<rparr>"

definition sample_filter :: plan where
  "sample_filter = FilterExec sample_scan (EBinary (ELiteral (SInt64 (Some 5))) OpLt (EColumn ''k'' 0)) None
     \<lparr>np_schema = scan_schema, np_partitions = 4\<rparr>"

definition sample_plan :: plan where
  "sample_plan = AggregateExec
     (RepartitionExec (AggregateExec sample_filter (sample_agg ModePartial) \<lparr>np_schema = sum_schema, np_partitions = 4\<rparr>)
        ''Hash'' \<lparr>np_schema = sum_schema, np_partitions = 4\<rparr>)
     (sample_agg ModeFinalPartitioned) \<lparr>np_schema = sum_schema, np_partitions = 4\<rparr>"

definition placed_filter :: plan where
  "placed_filter = GpuFilterExec sample_scan \<lparr>gf_predicate = Compare 0 Gt (LInt64 5), gf_projection = [0, 1],
     gf_props = \<lparr>np_schema = scan_schema, np_partitions = 4\<rparr>, gf_config = config_new Cuda\<rparr>"

definition placed_plan :: plan where
  "placed_plan = GpuAggregateExec
     (CoalescePartitionsExec placed_filter \<lparr>np_schema = scan_schema, np_partitions = 1\<rparr>)
     \<lparr>ga_spec = \<lparr>group_by = 0, aggregates = [(AggSum, 1)]\<rparr>, ga_props = \<lparr>np_schema = sum_schema, np_partitions = 1\<rparr>,
      ga_config = config_new Cuda\<rparr>"

lemma sample_scan_placed: "transform_up ref_df (rewrite ref_df Cuda) sample_scan None = (Inr (sample_scan, False), None)"
  by (subst transform_up.simps) (simp add: sample_scan_def call_then_def pure_call_def rewrite_def)

lemma sample_filter_placed: "transform_up ref_df (rewrite ref_df Cuda) sample_filter None = (Inr (placed_filter, True), None)"
proof -
  have "rewrite ref_df Cuda sample_filter None = (Inr (placed_filter, True), None)"
    by (simp add: sample_filter_def placed_filter_def sample_scan_def rewrite_def or_else_def lower_filter_def call_then_def
        pure_call_def compare_operands_def filter_try_new_def validate_predicate_def MAX_PREDICATE_LEAVES_def column_type_def
        schema_project_def scan_schema_def instrument_def upt_rec)
  moreover have "children sample_filter = [sample_scan]" by (simp add: sample_filter_def)
  ultimately show ?thesis
    by (subst transform_up.simps) (simp add: call_then_def pure_call_def sample_scan_placed)
qed

abbreviation sample_partial :: "plan \<Rightarrow> plan" where
  "sample_partial i \<equiv> AggregateExec i (sample_agg ModePartial) \<lparr>np_schema = sum_schema, np_partitions = 4\<rparr>"

abbreviation sample_exchange :: "plan \<Rightarrow> plan" where
  "sample_exchange i \<equiv> RepartitionExec (sample_partial i) ''Hash'' \<lparr>np_schema = sum_schema, np_partitions = 4\<rparr>"

lemma sample_schemas [simp]: "plan_schema sample_filter = scan_schema" "plan_schema placed_filter = scan_schema"
  "partition_count placed_filter = 4"
  by (simp_all add: sample_filter_def placed_filter_def)

lemma ref_props: "map plan_schema cs = map plan_schema (children p) \<Longrightarrow> df_props ref_df p cs = Inr (plan_props p)"
  by (simp add: ref_df_def)

lemma sample_halves_stay:
  "rewrite ref_df Cuda (sample_partial i) h = (Inr (sample_partial i, False), h)"
  "rewrite ref_df Cuda (sample_exchange i) h = (Inr (sample_exchange i, False), h)"
  by (simp_all add: rewrite_def or_else_def lower_aggregate_def aggregate_source_def sample_agg_def call_then_def pure_call_def)

lemma sample_partial_placed:
  "transform_up ref_df (rewrite ref_df Cuda) (sample_partial sample_filter) None = (Inr (sample_partial placed_filter, True), None)"
  by (subst transform_up.simps)
    (simp add: call_then_def pure_call_def sample_filter_placed ref_props sample_halves_stay)

lemma sample_exchange_placed:
  "transform_up ref_df (rewrite ref_df Cuda) (sample_exchange sample_filter) None = (Inr (sample_exchange placed_filter, True), None)"
  by (subst transform_up.simps)
    (simp add: call_then_def pure_call_def sample_partial_placed ref_props sample_halves_stay)

lemma sample_plan_placed: "optimize ref_df Cuda sample_plan None = (Inr placed_plan, None)"
proof -
  have spec: "try_lower_aggregate_spec placed_filter (sample_agg ModePartial) = Inr (Inr \<lparr>group_by = 0, aggregates = [(AggSum, 1)]\<rparr>)"
    by (simp add: try_lower_aggregate_spec_def sample_agg_def schema_field_def scan_schema_def lower_aggregate_expr_def
        aggregate_function_of_def)
  have "rewrite ref_df Cuda (AggregateExec (sample_exchange placed_filter) (sample_agg ModeFinalPartitioned)
      \<lparr>np_schema = sum_schema, np_partitions = 4\<rparr>) None = (Inr (placed_plan, True), None)"
    using spec
    by (simp add: rewrite_def or_else_def lower_aggregate_def aggregate_source_def call_then_def pure_call_def
        sample_agg_def coalesced_def aggregate_try_new_def aggregate_output_schema_def column_type_def schema_field_def
        aggregate_output_field_def with_output_schema_def scan_schema_def sum_schema_def instrument_def placed_plan_def)
  then show ?thesis
    unfolding optimize_def sample_plan_def
    by (subst transform_up.simps)
      (simp add: call_then_def pure_call_def sample_exchange_placed ref_props)
qed

lemma sample_plan_wf: "plan_wf sample_plan"
  by (simp add: sample_plan_def sample_filter_def sample_scan_def plan_wf.simps sample_agg_def int_extrema_def halves_match_def
      sum_schema_def)

section \<open>Properties\<close>


text \<open>
  C31: The predicate of a lowered filter means what the expression it comes from means, row by row and
  in three-valued logic: a literal on the left is a flipped comparison, \<open>AND\<close> is Kleene's, and a \<open>NULL\<close>
  gives \<open>NULL\<close>.
\<close>

theorem lowered_predicate_meaning:
  assumes "plan_semantics D ev df_step agrees near" and "try_lower_predicate D fs e = Inr p" and "row_ok fs r"
  shows "ev e r = map_option CBool (pred_on_row p r)"
  using plan_semantics.lowered_predicate [OF assms] .

theorem lowered_predicate_meaning_witness:
  "ref_ev (EBinary (ELiteral (SInt64 (Some 5))) OpLtEq (EColumn ''k'' 0)) [Some (CInt 5)]
     = map_option CBool (pred_on_row (Compare 0 GtEq (LInt64 5)) [Some (CInt 5)])"
  by (rule lowered_predicate_meaning [OF reference_plans.plan_semantics_axioms, where fs = "[Field ''k'' Int64 True]"])
    (simp_all add: compare_operands_def row_ok_def)

text \<open>
  C32: A filter whose predicate the grammar covers but which has more than 64 comparisons makes the
  planning fail with an error, instead of leaving the filter on the CPU as for any other predicate the
  device does not take.
\<close>

theorem large_predicate_stops_planning:
  assumes "try_lower_predicate D (plan_schema i) e = Inr p" and "64 < leaf_count p"
  shows "\<exists>m. rewrite D k (FilterExec i e js pr) h = (df_fail (DfPlan m), h)"
  using predicate_too_large [OF assms(1)] assms(2) by (simp add: MAX_PREDICATE_LEAVES_def plan_err_def)

definition conjunction :: "nat \<Rightarrow> pexpr" where
  "conjunction n = ((\<lambda>e. EBinary (EBinary (EColumn ''k'' 0) OpGt (ELiteral (SInt64 (Some 5)))) OpAnd e) ^^ n)
     (EBinary (EColumn ''k'' 0) OpGt (ELiteral (SInt64 (Some 5))))"

definition conjoined :: "nat \<Rightarrow> predicate" where
  "conjoined n = (And (Compare 0 Gt (LInt64 5)) ^^ n) (Compare 0 Gt (LInt64 5))"

lemma conjunction_lowered: "try_lower_predicate ref_df scan_schema (conjunction n) = Inr (conjoined n)"
  by (induction n) (simp_all add: conjunction_def conjoined_def compare_operands_def scan_schema_def)

lemma leaf_count_conjoined: "leaf_count (conjoined n) = Suc n"
  by (induction n) (simp_all add: conjoined_def)

theorem large_predicate_stops_planning_witness:
  "\<exists>m. rewrite ref_df Cuda (FilterExec sample_scan (conjunction 64) None \<lparr>np_schema = scan_schema, np_partitions = 4\<rparr>) None
     = (df_fail (DfPlan m), None)"
  by (rule large_predicate_stops_planning [where p = "conjoined 64"])
    (simp_all add: sample_scan_def conjunction_lowered leaf_count_conjoined)

lemma query_literal_query: "query_literal q = Inr v \<Longrightarrow> q \<noteq> [] \<Longrightarrow> literal_query v = Some q"
  by (auto simp: query_literal_def literal_query_def list_all_iff comp_def split: if_splits)

text \<open>
  C33: A query vector survives the way through a literal: the literal built for it is one the rule
  recognizes, with the same vector; and the SQL function called with that literal on either side of a
  vector column computes, bit for bit, the distance column of the kernel, so lowering a projection does
  not change its values.
\<close>

theorem distance_function_matches_kernel:
  assumes "arrow_compute A" and "batch_ok b" and "c < length (columns b)" and "query_literal q = Inr v" and "q \<noteq> []"
    and "vector_dimension (arr_type (columns b ! c)) = Some (length q)"
    and "args = [ColArray (columns b ! c), ColScalar v] \<or> args = [ColScalar v, ColArray (columns b ! c)]"
  shows "literal_query v = Some q \<and> (\<exists>r. vector_distance A b c q m name = Inr r \<and>
    udf_invoke m args (num_rows b) = Inr (ColArray (last (columns r))))"
  using query_literal_query [OF assms(4,5)] arrow_compute.vector_distance_rows [OF assms(1-3,6) refl]
    udf_invoke_distance [OF query_literal_query [OF assms(4,5)] assms(6) batch_ok_rows [OF assms(2,3)] assms(7)]
  by simp

theorem distance_function_matches_kernel_witness:
  "\<exists>v r. query_literal [0] = Inr v \<and> literal_query v = Some [0] \<and> vector_distance arrow_ref sample_vectors 0 [0] L2 ''d'' = Inr r \<and>
    udf_invoke L2 [ColScalar v, ColArray (columns sample_vectors ! 0)] (num_rows sample_vectors) = Inr (ColArray (last (columns r)))"
proof -
  let ?v = "SFixedSizeList \<lparr>arr_type = FixedSizeList (Field ''item'' Float32 True) 1, cells = [Some (CVec [(True, 0)])]\<rparr>"
  have v: "query_literal [0] = Inr ?v" by (simp add: query_literal_def i32_max_def)
  have b: "batch_ok sample_vectors" "0 < length (columns sample_vectors)"
    "vector_dimension (arr_type (columns sample_vectors ! 0)) = Some (length [0 :: f32])"
    by (simp_all add: sample_vectors_def batch_ok_def columns_fit_def column_fits_def array_ok_def)
  show ?thesis
    using distance_function_matches_kernel [OF aref.arrow_compute_axioms b(1,2) v _ b(3),
        of "[ColScalar ?v, ColArray (columns sample_vectors ! 0)]" L2 "''d''"] v
    by simp
qed

end
