(* ===== verification/Node_Execution.thy ===== *)
theory Node_Execution
  imports Placement_Correct
begin

text \<open>
  Execution of OxideLake's plan nodes on a backend: every stream of batches a node delivers without an
  error holds the rows its meaning \<open>gpu_step\<close> gives, whichever batches ran on the device and whichever on
  the CPU, in however many partitions and batches the input arrives.  With the placement result this
  gives the correctness of a whole query: what the placed plan delivers, the original plan may deliver.
\<close>

section \<open>Rows of computed batches\<close>

lemma mset_batch_rows: "mset (batch_rows b) = image_mset ((!) (batch_rows b)) (mset [0..<num_rows b])"
  by (metis length_batch_rows map_nth mset_map)

lemma gather_rows:
  assumes "\<forall>r \<in> set rows. r < num_rows b" and "\<forall>j \<in> set js. j < length (columns b)"
  shows "batch_rows (gather_batch b rows js) = map (\<lambda>r. pick js (batch_rows b ! r)) rows"
proof (rule nth_equalityI)
  fix k
  assume "k < length (batch_rows (gather_batch b rows js))"
  then have k: "k < length rows" by (simp add: gather_batch_def)
  then have "rows ! k < num_rows b" using assms(1) by simp
  then show "batch_rows (gather_batch b rows js) ! k = map (\<lambda>r. pick js (batch_rows b ! r)) rows ! k"
    using k assms(2) by (auto simp: batch_rows_nth gather_batch_def take_array_def pick_def)
qed (simp add: gather_batch_def)

lemma filtered_rows:
  assumes "\<forall>i \<in> set (pred_columns p). i < length (columns b)" and "\<forall>j \<in> set js. j < length (columns b)"
  shows "mset (batch_rows (gather_batch b (kept_rows b p) js))
    = image_mset (pick js) (filter_mset (\<lambda>r. pred_on_row p r = Some True) (mset (batch_rows b)))"
proof -
  have kept: "kept_rows b p = filter (\<lambda>k. pred_on_row p (batch_rows b ! k) = Some True) [0..<num_rows b]"
    unfolding kept_rows_def using pred_row_on_row [OF assms(1)] by (intro filter_cong) auto
  have "mset (batch_rows (gather_batch b (kept_rows b p) js)) = image_mset (\<lambda>k. pick js (batch_rows b ! k)) (mset (kept_rows b p))"
    using gather_rows [of "kept_rows b p" b js] assms(2) by (simp add: kept_rows_def)
  also have "\<dots> = image_mset (pick js) (filter_mset (\<lambda>r. pred_on_row p r = Some True) (mset (batch_rows b)))"
    unfolding mset_batch_rows [of b] kept by (simp add: filter_mset_image_mset multiset.map_comp comp_def)
  finally show ?thesis .
qed

lemma join_bag_image:
  "join_bag P f (image_mset g R) (image_mset h S) = join_bag (\<lambda>x y. P (g x) (h y)) (\<lambda>x y. f (g x) (h y)) R S"
  by (simp add: join_bag_def multiset.map_comp comp_def filter_mset_image_mset)

lemma join_bag_product:
  "mset (map (\<lambda>(x, y). f x y) (filter (\<lambda>(x, y). P x y) (List.product xs ys))) = join_bag P f (mset xs) (mset ys)"
proof (induction xs)
  case (Cons x xs)
  have "mset (map (\<lambda>(x, y). f x y) (filter (\<lambda>(x, y). P x y) (map (Pair x) ys))) = image_mset (f x) (filter_mset (P x) (mset ys))"
    by (induction ys) auto
  then show ?case using Cons by simp
qed simp

lemma join_bag_union [simp]: "join_bag P f (R + R') S = join_bag P f R S + join_bag P f R' S"
  by (simp add: join_bag_def)

lemma joined_rows:
  assumes "batch_ok l" and "batch_ok r" and "\<forall>(i, j) \<in> set ps. i < num_rows l \<and> j < num_rows r"
    and "\<forall>j \<in> set sel. j < length (columns l) + length (columns r)"
  shows "batch_rows (joined_batch l r ps sel) = map (\<lambda>(i, j). pick sel (batch_rows l ! i @ batch_rows r ! j)) ps"
proof (rule nth_equalityI)
  fix k
  assume "k < length (batch_rows (joined_batch l r ps sel))"
  then have k: "k < length ps" by (simp add: joined_batch_def)
  obtain i j where ij: "ps ! k = (i, j)" by fastforce
  then have b: "i < num_rows l" "j < num_rows r" using assms(3) k nth_mem [of k ps] by auto
  have "cells ((map (take_array (map fst ps)) (columns l) @ map (take_array (map snd ps)) (columns r)) ! s) ! k
      = (batch_rows l ! i @ batch_rows r ! j) ! s" if "s \<in> set sel" for s
  proof (cases "s < length (columns l)")
    case True
    then show ?thesis using k b ij by (simp add: nth_append take_array_def batch_rows_nth)
  next
    case False
    then have "s - length (columns l) < length (columns r)" using assms(4) that by auto
    then show ?thesis using False k b ij by (simp add: nth_append take_array_def batch_rows_nth)
  qed
  then show "batch_rows (joined_batch l r ps sel) ! k = map (\<lambda>(i, j). pick sel (batch_rows l ! i @ batch_rows r ! j)) ps ! k"
    using k ij by (auto simp: joined_batch_def batch_rows_nth pick_def)
qed (simp add: joined_batch_def)

lemma key_cell:
  assumes "batch_ok b" and "key_column b k keys" and "r < num_rows b"
  shows "batch_rows b ! r ! k = map_option CInt (keys ! r)"
proof -
  have k: "k < length (columns b)" "arr_type (columns b ! k) = Int64" and keys: "keys = map (map_option cell_i64) (cells (columns b ! k))"
    using assms(2) by (auto simp: key_column_def as_int64_def split: if_splits)
  have "case cells (columns b ! k) ! r of None \<Rightarrow> True | Some v \<Rightarrow> cell_ok Int64 v"
    using column_cell_ok [OF assms(1,3) k(1)] k(2) batch_ok_type [OF assms(1) k(1)] by (auto split: option.splits)
  then show ?thesis using k(1) assms(3) keys batch_ok_rows [OF assms(1) k(1)]
    by (auto simp: batch_rows_nth split: option.splits cell.splits)
qed

lemma nested_loop_rows:
  assumes "batch_ok l" and "batch_ok r" and "key_column l lkey lk" and "key_column r rkey rk"
    and "mset ps = mset (nested_loop lk rk)" and "\<forall>j \<in> set sel. j < length (columns l) + length (columns r)"
  shows "mset (batch_rows (joined_batch l r ps sel)) = join_rows lkey rkey sel (mset (batch_rows l)) (mset (batch_rows r))"
proof -
  let ?f = "\<lambda>i j. pick sel (batch_rows l ! i @ batch_rows r ! j)"
  have len: "length lk = num_rows l" "length rk = num_rows r"
    using key_column_length assms(1-4) by blast+
  have "set ps = set (nested_loop lk rk)" using assms(5) by (metis set_mset_mset)
  then have b: "\<forall>(i, j) \<in> set ps. i < num_rows l \<and> j < num_rows r" using nested_loop_less len by fastforce
  have km: "keys_match lkey rkey (batch_rows l ! i) (batch_rows r ! j) = (lk ! i \<noteq> None \<and> lk ! i = rk ! j)"
    if "i < num_rows l" and "j < num_rows r" for i j
    using key_cell [OF assms(1,3) that(1)] key_cell [OF assms(2,4) that(2)]
    by (cases "lk ! i"; cases "rk ! j") (auto simp: keys_match_def)
  have loop: "nested_loop lk rk = filter (\<lambda>(i, j). keys_match lkey rkey (batch_rows l ! i) (batch_rows r ! j))
      (List.product [0..<num_rows l] [0..<num_rows r])"
    unfolding nested_loop_def len by (intro filter_cong refl) (clarsimp simp: km simp del: not_None_eq)
  have "mset (batch_rows (joined_batch l r ps sel)) = image_mset (\<lambda>(i, j). ?f i j) (mset ps)"
    using joined_rows [OF assms(1,2) b assms(6)] by simp
  also have "\<dots> = mset (map (\<lambda>(i, j). ?f i j) (nested_loop lk rk))" using assms(5) by simp
  also have "\<dots> = join_rows lkey rkey sel (mset (batch_rows l)) (mset (batch_rows r))"
    unfolding loop join_bag_product join_rows_def mset_batch_rows [of l] mset_batch_rows [of r] join_bag_image ..
  finally show ?thesis .
qed

lemma concat_rows:
  assumes "batches_of fs bs"
  shows "batch_rows (concat_batch fs bs) = concat (map batch_rows bs)"
  using assms
proof (induction bs)
  case Nil
  show ?case by (simp add: batch_rows_def concat_batch_def)
next
  case (Cons b bs)
  let ?c = "concat_batch fs bs" and ?d = "concat_batch fs (b # bs)"
  have b: "batch_ok b" "schema b = fs" using Cons.prems by simp_all
  then have len: "length (columns b) = length fs" using batch_ok_length [of b] by simp
  have "batch_rows ?d ! k = (batch_rows b @ batch_rows ?c) ! k" if k: "k < num_rows b + num_rows ?c" for k
  proof -
    have row: "cells (columns ?d ! i) ! k = (if k < num_rows b then cells (columns b ! i) ! k else cells (columns ?c ! i) ! (k - num_rows b))"
      if "i < length fs" for i
      using that batch_ok_rows [OF b(1), of i] len by (simp add: concat_batch_def nth_append)
    have n: "num_rows ?d = num_rows b + num_rows ?c" "length (columns ?d) = length fs" "length (columns ?c) = length fs"
      by (simp_all add: concat_batch_def)
    have "batch_rows ?d ! k = map (\<lambda>i. cells (columns ?d ! i) ! k) [0..<length fs]"
      using k n by (intro nth_equalityI) (simp_all add: batch_rows_nth)
    also have "\<dots> = (batch_rows b @ batch_rows ?c) ! k"
    proof (cases "k < num_rows b")
      case True
      then show ?thesis using row len by (intro nth_equalityI) (simp_all add: nth_append batch_rows_nth)
    next
      case False
      then show ?thesis using row n k by (intro nth_equalityI) (simp_all add: nth_append batch_rows_nth)
    qed
    finally show ?thesis .
  qed
  then have "batch_rows ?d = batch_rows b @ batch_rows ?c" by (intro nth_equalityI) (simp_all add: concat_batch_def)
  then show ?case using Cons by simp
qed

section \<open>Executions\<close>

text \<open>
  A partition is the batches it delivers, each with the time its processing takes, and the operator
  created for it.  Every partition of a join probes the same collected build side.
\<close>

definition timed_stream :: "(nat \<times> batch) list \<Rightarrow> batch_stream" where
  "timed_stream items = map (\<lambda>(t, b). (t, Inr b)) items"

type_synonym ('w, 't, 'd) partition = "(nat \<times> batch) list \<times> ('w, 't, 'd) gpu_operator"

definition partition_batches :: "('w, 't, 'd) partition list \<Rightarrow> batch list" where
  "partition_batches parts = concat (map (\<lambda>(items, st). map snd items) parts)"

inductive executes :: "arrow_ops \<Rightarrow> ('w, 't, 'd) gpu_backend \<Rightarrow> ((i64 \<times> nat) list \<Rightarrow> (i64 \<times> nat) list) \<Rightarrow> plan
    \<Rightarrow> batch list list \<Rightarrow> batch result list \<Rightarrow> bool" for A B ord where
  executes_filter: "executes A B ord (GpuFilterExec i g) [partition_batches parts]
    (concat (map (\<lambda>(items, st). fst (filter_execute A B g (timed_stream items) st)) parts))"
| executes_vector: "executes A B ord (GpuVectorDistanceExec i g) [partition_batches parts]
    (concat (map (\<lambda>(items, st). fst (vector_execute A B g (timed_stream items) st)) parts))"
| executes_join: "(\<forall>(items, st) \<in> set parts. op_build st = None)
    \<Longrightarrow> executes A B ord (GpuHashJoinExec l r g) [partition_batches parts, rs]
      (concat (map (\<lambda>(items, st). fst (join_execute A B g
        (collect_build ord A (plan_schema r) (gj_right_key g) (Inr rs)) (timed_stream items) st)) parts))"
| executes_aggregate: "aggregate A (concat_batch (plan_schema i) bs) (ga_spec g) = Inr exact
    \<Longrightarrow> executes A B ord (GpuAggregateExec i g) [bs]
      (fst (aggregate_execute A B g (plan_schema i) 0 (Inr bs) t st))"

inductive_cases executes_filterE: "executes A B ord (GpuFilterExec i g) bss outs"
inductive_cases executes_vectorE: "executes A B ord (GpuVectorDistanceExec i g) bss outs"
inductive_cases executes_joinE: "executes A B ord (GpuHashJoinExec l r g) bss outs"
inductive_cases executes_aggregateE: "executes A B ord (GpuAggregateExec i g) bss outs"

text \<open>Batches and inputs of a size the kernels index.\<close>

definition small_batches :: "batch list \<Rightarrow> bool" where
  "small_batches bs = (sum_list (map num_rows bs) \<le> u32_max)"

text \<open>What a node's input must be for the backend's promises to apply to its execution.\<close>

fun in_scope :: "backend_scope \<Rightarrow> plan \<Rightarrow> batch list list \<Rightarrow> bool" where
  "in_scope S (GpuFilterExec i g) [bs] = (\<forall>b \<in> set bs. batch_carried S b \<and> pred_ordered S b (gf_predicate g))"
| "in_scope S (GpuVectorDistanceExec i g) [bs] = (\<forall>b \<in> set bs. batch_carried S b)"
| "in_scope S (GpuHashJoinExec l r g) [ls, rs] = (batch_carried S (concat_batch (plan_schema r) rs) \<and>
     (\<forall>b \<in> set ls. \<forall>rk. key_column (concat_batch (plan_schema r) rs) (gj_right_key g) rk
        \<longrightarrow> probe_in_scope S rk (gj_left_key g) b))"
| "in_scope S (GpuAggregateExec i g) [bs] = (batch_carried S (concat_batch (plan_schema i) bs) \<and>
     agg_folded S (concat_batch (plan_schema i) bs) (ga_spec g))"
| "in_scope S p bss = False"

lemma map_stream_results:
  assumes "fst (map_stream f (timed_stream items) st) = map Inr outs"
    and "\<And>t b st out. b \<in> snd ` set items \<Longrightarrow> fst (f t b st) = Inr out \<Longrightarrow> Q b out"
  shows "list_all2 Q (map snd items) outs"
  using assms
proof (induction items arbitrary: st outs)
  case (Cons x items)
  obtain t b where x: "x = (t, b)" by (cases x)
  obtain r st1 where r: "f t b st = (r, st1)" by fastforce
  obtain rs st2 where rs: "map_stream f (timed_stream items) st1 = (rs, st2)" by fastforce
  have "into_df r # rs = map Inr outs" using Cons.prems(1) x r rs by (simp add: timed_stream_def)
  then obtain out outs' where outs: "outs = out # outs'" "r = Inr out" "rs = map Inr outs'"
    by (cases outs; cases r) auto
  have "Q b out" using Cons.prems(2) [of b t st out] x r outs(2) by simp
  moreover have "list_all2 Q (map snd items) outs'" using Cons.IH [of st1 outs'] Cons.prems(2) rs outs(3) by simp
  ultimately show ?case using x outs(1) by simp
qed (simp add: timed_stream_def)

lemma partition_results:
  assumes "concat (map (\<lambda>(items, st). fst (run items st)) parts) = map Inr outs"
    and "\<And>items st outs. (items, st) \<in> set parts \<Longrightarrow> fst (run items st) = map Inr outs \<Longrightarrow> list_all2 Q (map snd items) outs"
  shows "list_all2 Q (partition_batches parts) outs"
  using assms
proof (induction parts arbitrary: outs)
  case (Cons x parts)
  obtain items st where x: "x = (items, st)" by (cases x)
  have "fst (run items st) @ concat (map (\<lambda>(items, st). fst (run items st)) parts) = map Inr outs" using Cons.prems(1) x by simp
  then obtain o1 o2 where o: "outs = o1 @ o2" "fst (run items st) = map Inr o1"
    "concat (map (\<lambda>(items, st). fst (run items st)) parts) = map Inr o2"
    unfolding append_eq_map_conv by blast
  have "list_all2 Q (map snd items) o1" using Cons.prems(2) [of items st o1] x o(2) by simp
  moreover have "list_all2 Q (partition_batches parts) o2"
    by (rule Cons.IH [OF o(3)]) (use Cons.prems(2) in auto)
  ultimately show ?case using x o(1) by (simp add: partition_batches_def list_all2_appendI)
qed (simp add: partition_batches_def)

section \<open>Every node delivers what it means\<close>

lemma validate_leaves_typed:
  "validate_predicate_leaves fs p = Inr () \<Longrightarrow> pred_typed (map field_type fs) p"
  by (induction p) (auto simp: column_type_def result_simps plan_err_def split: if_splits literal.splits)

lemma validate_predicate_typed: "validate_predicate fs p = Inr () \<Longrightarrow> pred_typed (map field_type fs) p"
  by (auto simp: validate_predicate_def Let_def plan_err_def intro: validate_leaves_typed split: if_splits)

lemma batch_types: "batch_ok b \<Longrightarrow> map arr_type (columns b) = map field_type (schema b)"
  using batch_ok_length [of b] batch_ok_type [of b] by (intro nth_equalityI) auto

lemma validated_columns: "pred_typed ts p \<Longrightarrow> \<forall>i \<in> set (pred_columns p). i < length ts"
  by (induction p) auto

lemma partition_members: "(items, st) \<in> set parts \<Longrightarrow> snd ` set items \<subseteq> set (partition_batches parts)"
  by (force simp: partition_batches_def)

lemma rows_of_filtered:
  assumes "list_all2 (\<lambda>b out. out = gather_batch b (kept_rows b p) js) bs outs" and "batches_of fs bs"
    and "\<forall>i \<in> set (pred_columns p). i < length fs" and "\<forall>j \<in> set js. j < length fs"
  shows "rows_of outs = image_mset (pick js) (filter_mset (\<lambda>r. pred_on_row p r = Some True) (rows_of bs))"
  using assms
proof (induction rule: list_all2_induct)
  case (Cons b bs out outs)
  then have "length (columns b) = length fs" using batch_ok_length [of b] by simp
  then show ?case using Cons filtered_rows [of p b js] by simp
qed simp

lemma num_rows_bound: "b \<in> set bs \<Longrightarrow> small_batches bs \<Longrightarrow> num_rows b \<le> u32_max"
  unfolding small_batches_def using member_le_sum_list [of "num_rows b" "map num_rows bs"] by force

lemma u32_less: "n \<le> u32_max \<Longrightarrow> n < 2 ^ 63 \<and> n \<le> Suc u32_max"
  by (simp add: u32_max_def)

context conforming_backend
begin

lemma filter_delivers:
  assumes "node_wf (GpuFilterExec i g)" and "batches_of (plan_schema i) bs" and "small_batches bs"
    and "executes A B ord (GpuFilterExec i g) [bs] (map Inr outs)" and "in_scope S (GpuFilterExec i g) [bs]"
  shows "gpu_step agrees near (GpuFilterExec i g) [rows_of bs] (rows_of outs)"
proof -
  let ?p = "gf_predicate g" and ?js = "gf_projection g"
  have typed: "pred_typed (map field_type (plan_schema i)) ?p" and js: "?js \<noteq> []" "\<forall>j \<in> set ?js. j < length (plan_schema i)"
    using assms(1) validate_predicate_typed by (auto simp: schema_project_Inr)
  obtain parts where bs: "bs = partition_batches parts"
    and outs: "concat (map (\<lambda>(items, st). fst (filter_execute A B g (timed_stream items) st)) parts) = map Inr outs"
    using assms(4) by (elim executes_filterE) auto
  have each: "out = gather_batch b (kept_rows b ?p) ?js"
    if "b \<in> set bs" and "fst (op_filter_project A B t b ?p ?js st) = Inr out" for t b st out
  proof -
    have b: "batch_ok b" "schema b = plan_schema i" "num_rows b < 2 ^ 63"
      using assms(2) that(1) u32_less [OF num_rows_bound [OF that(1) assms(3)]] by (auto simp: batches_of_def list_all_iff)
    then have t: "pred_typed (map arr_type (columns b)) ?p" "\<forall>j \<in> set ?js. j < length (columns b)"
      using typed js(2) batch_types [of b] batch_ok_length [of b] by simp_all
    have ref: "filter_project A b ?p ?js = Inr (gather_batch b (kept_rows b ?p) ?js)"
      by (rule filter_project_rows [OF b(1) t(1) js(1) t(2)])
    have scope: "batch_carried S b" "pred_ordered S b ?p" using assms(5) that(1) by simp_all
    show ?thesis
      using with_fallback_result [where on_device = "op_filter_project_on_device A B b ?p ?js" and st = st,
          OF filter_on_device [OF b(1) t(1) js(1) t(2) b(3)], OF scope, of B "be_supports_predicate B ?p" "''this predicate''"
          "filter_project A b ?p ?js" "num_rows b" t] that(2) ref
      unfolding op_filter_project_def by auto
  qed
  have "list_all2 (\<lambda>b out. out = gather_batch b (kept_rows b ?p) ?js) bs outs"
    unfolding bs
  proof (rule partition_results [OF outs])
    fix items st os
    assume part: "(items, st) \<in> set parts" and "fst (filter_execute A B g (timed_stream items) st) = map Inr os"
    then show "list_all2 (\<lambda>b out. out = gather_batch b (kept_rows b ?p) ?js) (map snd items) os"
      unfolding filter_execute_def
      by (rule_tac map_stream_results) (use partition_members [OF part] each bs in auto)
  qed
  then show ?thesis
    using rows_of_filtered [OF _ assms(2) _ js(2)] validated_columns [OF typed] rows_ok_of [OF assms(2)] by simp
qed

lemma vector_delivers:
  assumes "node_wf (GpuVectorDistanceExec i g)" and "batches_of (plan_schema i) bs" and "small_batches bs"
    and "executes A B ord (GpuVectorDistanceExec i g) [bs] (map Inr outs)" and "in_scope S (GpuVectorDistanceExec i g) [bs]"
  shows "gpu_step agrees near (GpuVectorDistanceExec i g) [rows_of bs] (rows_of outs)"
proof -
  let ?Q = "\<lambda>b out. \<exists>c. near (distance_column b (gv_column g) (gv_query g) (gv_metric g)) c \<and> out = append_column b (gv_output_name g) c"
  obtain parts where bs: "bs = partition_batches parts"
    and outs: "concat (map (\<lambda>(items, st). fst (vector_execute A B g (timed_stream items) st)) parts) = map Inr outs"
    using assms(4) by (elim executes_vectorE) auto
  have each: "?Q b out"
    if "b \<in> set bs" and "fst (op_vector_distance A B t b (gv_column g) (gv_query g) (gv_metric g) (gv_output_name g) st) = Inr out"
    for t b st out
  proof -
    have b: "batch_ok b" "schema b = plan_schema i" "num_rows b < 2 ^ 63"
      using assms(2) that(1) u32_less [OF num_rows_bound [OF that(1) assms(3)]] by (auto simp: batches_of_def list_all_iff)
    then have c: "gv_column g < length (columns b)" "vector_dimension (arr_type (columns b ! gv_column g)) = Some (length (gv_query g))"
      using assms(1) batch_ok_length [of b] batch_ok_type [of b] by simp_all
    have ref: "vector_distance A b (gv_column g) (gv_query g) (gv_metric g) (gv_output_name g)
        = Inr (append_column b (gv_output_name g) (distance_column b (gv_column g) (gv_query g) (gv_metric g)))"
      using vector_distance_rows [OF b(1) c refl] by (simp add: append_column_def distance_column_def)
    have scope: "batch_carried S b" using assms(5) that(1) by simp
    show ?thesis
      using with_fallback_result [where on_device = "op_vector_distance_on_device A B b (gv_column g) (gv_query g) (gv_metric g) (gv_output_name g)"
          and st = st, OF distance_on_device [OF b(1) c refl b(3)], OF scope, of B True "''vector distance''"
          "vector_distance A b (gv_column g) (gv_query g) (gv_metric g) (gv_output_name g)" "num_rows b" t] that(2) ref near_refl
      unfolding op_vector_distance_def by auto
  qed
  have "list_all2 ?Q bs outs"
    unfolding bs
  proof (rule partition_results [OF outs])
    fix items st os
    assume part: "(items, st) \<in> set parts" and "fst (vector_execute A B g (timed_stream items) st) = map Inr os"
    then show "list_all2 ?Q (map snd items) os"
      unfolding vector_execute_def
      by (rule_tac map_stream_results) (use partition_members [OF part] each bs in auto)
  qed
  then show ?thesis using assms(2) by (auto simp: appended_rows_def)
qed

end

lemma key_column_exists:
  assumes "batch_ok b" and "k < length (columns b)" and "field_type (schema b ! k) = Int64"
  shows "\<exists>keys. key_column b k keys"
  using assms batch_ok_type [OF assms(1,2)] by (simp add: key_column_def as_int64_def)

lemma probe_stream:
  "fst (map_stream (\<lambda>t left. op_hash_join A B t left build lkey projection) (timed_stream items) st)
    = map into_df (fst (probe_all A B build lkey projection items st))"
proof (induction items arbitrary: st)
  case (Cons x items)
  obtain t left where x: "x = (t, left)" by (cases x)
  obtain r st1 where r: "op_hash_join A B t left build lkey projection st = (r, st1)" by fastforce
  have "timed_stream (x # items) = (t, Inr left) # timed_stream items" using x by (simp add: timed_stream_def)
  then show ?case using Cons.IH [of st1] x r by (auto simp: Let_def split: prod.splits)
qed (simp add: timed_stream_def)

lemma rows_of_joined:
  assumes "list_all2 (\<lambda>b out. \<exists>lk ps. key_column b lkey lk \<and> mset ps = mset (nested_loop lk rk) \<and> out = joined_batch b right ps sel) bs outs"
    and "batches_of fs bs" and "batch_ok right" and "key_column right rkey rk"
    and "\<forall>j \<in> set sel. j < length fs + length (schema right)"
  shows "rows_of outs = join_rows lkey rkey sel (rows_of bs) (mset (batch_rows right))"
  using assms
proof (induction rule: list_all2_induct)
  case (Cons b bs out outs)
  then obtain lk ps where "key_column b lkey lk" "mset ps = mset (nested_loop lk rk)" "out = joined_batch b right ps sel" by blast
  moreover have "batch_ok b" "length (columns b) = length fs" "length (columns right) = length (schema right)"
    using Cons.prems batch_ok_length [of b] batch_ok_length [of right] by simp_all
  ultimately have "mset (batch_rows out) = join_rows lkey rkey sel (mset (batch_rows b)) (mset (batch_rows right))"
    using nested_loop_rows [of b right lkey lk rkey rk ps sel] Cons.prems by simp
  then show ?case using Cons by (simp add: join_rows_def)
qed (simp add: join_rows_def)

lemma collect_res_each: "collect_res f xs = Inr ys \<Longrightarrow> x \<in> set xs \<Longrightarrow> \<exists>y. f x = Inr y"
  by (induction xs arbitrary: ys) (auto simp: result_simps)

lemma output_schema_aggregable:
  assumes "aggregate_output_schema fs spec = Inr gs"
  shows "aggregable (concat_batch fs bs) spec"
proof -
  obtain hs where hs: "collect_res (aggregate_output_field fs) (aggregates spec) = Inr hs"
    using assms by (auto simp: aggregate_output_schema_def result_simps plan_err_def split: if_splits)
  have "c < length fs \<and> gpu_eligible_scalar (field_type (fs ! c))" if "(f, c) \<in> set (aggregates spec)" for f c
    using collect_res_each [OF hs that]
    by (auto simp: aggregate_output_field_def result_simps column_type_def plan_err_def gpu_eligible_scalar_def split: if_splits)
  then show ?thesis by (auto simp: aggregable_def list_all_iff concat_batch_def)
qed

lemma concat_batch_sizes:
  "schema (concat_batch fs bs) = fs" "num_rows (concat_batch fs bs) = sum_list (map num_rows bs)"
  "length (columns (concat_batch fs bs)) = length fs"
  by (simp_all add: concat_batch_def)

context conforming_backend
begin

lemma concat_ok: "batches_of fs bs \<Longrightarrow> batch_ok (concat_batch fs bs) \<and> a_concat A fs bs = Inr (concat_batch fs bs)"
  by (auto simp: batches_of_def list_all_iff intro!: concat_batch_ok concat_eq)

lemma collect_build_table:
  assumes "permutes_list ord" and "batches_of fs rs" and "small_batches rs" and "key_column (concat_batch fs rs) rkey rk"
  obtains t where "collect_build ord A fs rkey (Inr rs) = Inr \<lparr>jb_batch = concat_batch fs rs, jb_key = rkey, jb_table = t\<rparr>"
    and "\<forall>k. table_matches t k = Inr (rows_with rk k)"
proof -
  have "length rk \<le> u32_max"
    using key_column_length [OF conjunct1 [OF concat_ok [OF assms(2)]] assms(4)] assms(3)
    by (simp add: small_batches_def concat_batch_sizes)
  then obtain t where t: "table_of_keys ord rk = Inr t" "\<forall>k. table_matches t k = Inr (rows_with rk k)"
    using table_of_keys_spec [OF assms(1), of rk] by blast
  then have "collect_build ord A fs rkey (Inr rs) = Inr \<lparr>jb_batch = concat_batch fs rs, jb_key = rkey, jb_table = t\<rparr>"
    using concat_ok [OF assms(2)] int64_column_key [OF assms(4)]
    by (simp add: collect_build_def join_build_new_def table_build_def)
  then show ?thesis using that t(2) by blast
qed

lemma join_delivers:
  assumes "permutes_list ord" and wf: "node_wf (GpuHashJoinExec l r g)"
    and ls: "batches_of (plan_schema l) ls" "small_batches ls" and rs: "batches_of (plan_schema r) rs" "small_batches rs"
    and ex: "executes A B ord (GpuHashJoinExec l r g) [ls, rs] (map Inr outs)"
    and scope: "in_scope S (GpuHashJoinExec l r g) [ls, rs]"
  shows "gpu_step agrees near (GpuHashJoinExec l r g) [rows_of ls, rows_of rs] (rows_of outs)"
proof -
  let ?right = "concat_batch (plan_schema r) rs"
  let ?sel = "selected_columns (gj_projection g) (length (plan_schema l) + length (plan_schema r))"
  have keys: "gj_left_key g < length (plan_schema l)" "field_type (plan_schema l ! gj_left_key g) = Int64"
    "gj_right_key g < length (plan_schema r)" "field_type (plan_schema r ! gj_right_key g) = Int64"
    and sel: "?sel \<noteq> []" "\<forall>j \<in> set ?sel. j < length (plan_schema l) + length (plan_schema r)"
    using wf by (auto simp: check_key_Inr schema_project_Inr selected_columns_def split: option.splits)
  have right: "batch_ok ?right" using concat_ok [OF rs(1)] by simp
  obtain rk where rk: "key_column ?right (gj_right_key g) rk"
    using key_column_exists [OF right] keys by (auto simp: concat_batch_sizes)
  obtain t where build: "collect_build ord A (plan_schema r) (gj_right_key g) (Inr rs)
      = Inr \<lparr>jb_batch = ?right, jb_key = gj_right_key g, jb_table = t\<rparr>" and t: "\<forall>k. table_matches t k = Inr (rows_with rk k)"
    using collect_build_table [OF assms(1) rs rk] by blast
  let ?build = "\<lparr>jb_batch = ?right, jb_key = gj_right_key g, jb_table = t\<rparr>"
  obtain parts where parts: "ls = partition_batches parts" "\<forall>(items, st) \<in> set parts. op_build st = None"
    and outs: "concat (map (\<lambda>(items, st). fst (join_execute A B g (Inr ?build) (timed_stream items) st)) parts) = map Inr outs"
    using ex build by (elim executes_joinE) auto
  let ?Q = "\<lambda>b out. \<exists>lk ps. key_column b (gj_left_key g) lk \<and> mset ps = mset (nested_loop lk rk) \<and> out = joined_batch b ?right ps ?sel"
  have probe: "probe_ok (plan_schema l) (gj_left_key g) b \<and> probe_in_scope S rk (gj_left_key g) b" if "b \<in> set ls" for b
    using scope rk ls(1) that u32_less [OF num_rows_bound [OF that ls(2)]] keys key_column_exists [of b "gj_left_key g"] batch_ok_length [of b]
    by (auto simp: probe_ok_def batches_of_def list_all_iff)
  have selR: "?sel = (case gj_projection g of Some js \<Rightarrow> js | None \<Rightarrow> [0..<length (plan_schema l) + length (schema ?right)])"
    unfolding selected_columns_def concat_batch_sizes ..
  have "list_all2 ?Q ls outs"
    unfolding parts(1)
  proof (rule partition_results [OF outs])
    fix items st os
    assume part: "(items, st) \<in> set parts" and os: "fst (join_execute A B g (Inr ?build) (timed_stream items) st) = map Inr os"
    have st: "op_build st = None" using parts(2) part by blast
    have "\<forall>(t, b) \<in> set items. probe_ok (plan_schema l) (gj_left_key g) b \<and> probe_in_scope S rk (gj_left_key g) b"
      using probe partition_members [OF part] parts(1) by force
    then have "list_all2 (\<lambda>(t, left). probe_answer B ?right rk (gj_left_key g) (gj_projection g) left) items
        (fst (probe_all A B ?build (gj_left_key g) (gj_projection g) items st))"
      using t st sel rs(2) scope
      by (intro probe_all_answers [OF _ _ right rk _ _ _ _ selR])
        (auto simp: concat_batch_sizes small_batches_def build_matches_def)
    moreover have "map into_df (fst (probe_all A B ?build (gj_left_key g) (gj_projection g) items st)) = map Inr os"
      using os unfolding join_execute_def sum.case(2) probe_stream .
    ultimately have "list_all2 (\<lambda>(t, left) out. probe_answer B ?right rk (gj_left_key g) (gj_projection g) left (Inr out)) items os"
      by (auto simp: list_all2_conv_all_nth list_eq_iff_nth_eq)
    moreover have "join_selection b ?right (gj_projection g) = ?sel" if "b \<in> snd ` set items" for b
    proof -
      have "schema b = plan_schema l" using that partition_members [OF part] parts(1) ls(1) by (auto simp: batches_of_def list_all_iff)
      then show ?thesis unfolding join_selection_def selected_columns_def concat_batch_sizes by (cases "gj_projection g") simp_all
    qed
    ultimately show "list_all2 ?Q (map snd items) os"
      by (auto simp: list_all2_conv_all_nth probe_answer_def split_beta)
  qed
  then have "rows_of outs = join_rows (gj_left_key g) (gj_right_key g) ?sel (rows_of ls) (mset (batch_rows ?right))"
    using rows_of_joined [OF _ ls(1) right rk] sel(2) by (simp add: concat_batch_sizes)
  moreover have "mset (batch_rows ?right) = rows_of rs" using concat_rows [OF rs(1)] by (simp add: rows_of_def)
  ultimately show ?thesis using rows_ok_of ls(1) rs(1) by simp
qed

lemma aggregate_delivers:
  assumes wf: "node_wf (GpuAggregateExec i g)" and bs: "batches_of (plan_schema i) bs" "small_batches bs"
    and ex: "executes A B ord (GpuAggregateExec i g) [bs] (map Inr outs)" and scope: "in_scope S (GpuAggregateExec i g) [bs]"
  shows "gpu_step agrees near (GpuAggregateExec i g) [rows_of bs] (rows_of outs)"
proof -
  let ?b = "concat_batch (plan_schema i) bs" and ?spec = "ga_spec g"
  obtain exact t st where exact: "aggregate A ?b ?spec = Inr exact"
    and outs: "fst (aggregate_execute A B g (plan_schema i) 0 (Inr bs) t st) = map Inr outs"
    using ex by (elim executes_aggregateE) auto
  have b: "batch_ok ?b" "a_concat A (plan_schema i) bs = Inr ?b" "num_rows ?b < 2 ^ 63"
    using concat_ok [OF bs(1)] bs(2) by (simp_all add: concat_batch_sizes small_batches_def u32_max_def)
  obtain fs where fs: "aggregate_output_schema (plan_schema i) ?spec = Inr fs" using wf by (auto split: sum.splits)
  then have key: "group_by ?spec < length (plan_schema i)" "field_type (plan_schema i ! group_by ?spec) = Int64"
    by (auto simp: aggregate_output_schema_def result_simps column_type_def plan_err_def split: if_splits)
  then obtain keys where keys: "key_column ?b (group_by ?spec) keys"
    using key_column_exists [OF b(1)] by (auto simp: concat_batch_sizes)
  have scoped: "batch_carried S ?b \<and> agg_folded S ?b ?spec" using scope by simp
  have agg: "aggregable ?b ?spec" by (rule output_schema_aggregable [OF fs])
  obtain r st' where r: "op_aggregate A B t ?b ?spec st = (r, st')" by fastforce
  have "map Inr outs = [and_then (into_df r) (\<lambda>out. arrow_df (a_try_new A (np_schema (ga_props g)) (columns out)))]"
    using outs r b(2) by (simp add: aggregate_execute_def)
  then obtain out out' where out: "r = Inr out" and new: "a_try_new A (np_schema (ga_props g)) (columns out) = Inr out'" and os: "outs = [out']"
    by (cases outs) (auto simp: and_then_Inr eq_commute [of "Inr _"])
  have "fst (op_aggregate A B t ?b ?spec st) = Inr out" using r out by simp
  then have "agrees exact out"
    using with_fallback_result [where on_device = "op_aggregate_on_device A B ?b ?spec" and st = st,
        OF aggregate_on_device [OF b(1) keys agg b(3) exact], OF conjunct1 [OF scoped] conjunct2 [OF scoped], of B "be_supports_aggregate B" "''aggregation''"
        "aggregate A ?b ?spec" "num_rows ?b" t] exact agrees_refl
    unfolding op_aggregate_def by auto
  moreover have "columns out \<noteq> [] \<and> columns_fit (new_rows (columns out)) (np_schema (ga_props g)) (columns out)"
    using try_new_err new by (metis Inl_Inr_False)
  then have "out' = \<lparr>schema = np_schema (ga_props g), columns = columns out, num_rows = new_rows (columns out)\<rparr>"
    using try_new_ok new by (metis sum.inject(2))
  then have "rows_of outs = mset (column_rows (columns out))" using os by (simp add: batch_rows_def column_rows_def)
  moreover have "rows_of [?b] = rows_of bs" using concat_rows [OF bs(1)] by (simp add: rows_of_def)
  moreover have "aggregate_result ?b keys ?spec = Inr exact" using aggregate_rows [OF b(1) keys agg b(3)] exact by simp
  ultimately show ?thesis
    using b(1) keys unfolding gpu_step.simps agg_rows_def
    by (intro exI [of _ ?b] exI [of _ keys] exI [of _ exact] exI [of _ out]) (simp add: concat_batch_sizes)
qed

lemma node_delivers:
  assumes "permutes_list ord" and "gpu_node p" and "node_wf p" and "executes A B ord p bss (map Inr outs)"
    and "list_all2 (\<lambda>c bs. batches_of (plan_schema c) bs \<and> small_batches bs) (children p) bss" and "in_scope S p bss"
  shows "gpu_step agrees near p (map rows_of bss) (rows_of outs)"
proof (cases p)
  case (GpuFilterExec i g)
  then obtain bs where "bss = [bs]" "batches_of (plan_schema i) bs" "small_batches bs"
    using assms(5) by (auto simp: list_all2_Cons1)
  then show ?thesis using filter_delivers assms(3,4,6) GpuFilterExec by simp
next
  case (GpuHashJoinExec l r g)
  then obtain ls rs where bss: "bss = [ls, rs]" "batches_of (plan_schema l) ls" "small_batches ls"
    "batches_of (plan_schema r) rs" "small_batches rs"
    using assms(5) by (auto simp: list_all2_Cons1)
  then show ?thesis using join_delivers [OF assms(1)] assms(3,4,6) GpuHashJoinExec by simp
next
  case (GpuAggregateExec i g)
  then obtain bs where "bss = [bs]" "batches_of (plan_schema i) bs" "small_batches bs"
    using assms(5) by (auto simp: list_all2_Cons1)
  then show ?thesis using aggregate_delivers assms(3,4,6) GpuAggregateExec by simp
next
  case (GpuVectorDistanceExec i g)
  then obtain bs where "bss = [bs]" "batches_of (plan_schema i) bs" "small_batches bs"
    using assms(5) by (auto simp: list_all2_Cons1)
  then show ?thesis using vector_delivers assms(3,4,6) GpuVectorDistanceExec by simp
qed (use assms(2) in simp_all)

end

section \<open>Runs of whole plans\<close>

text \<open>
  A run of a plan: each of OxideLake's nodes executes on the backend, over the batches its children
  delivered; DataFusion's nodes deliver rows their semantics allows.  Every stream carries batches of the
  node's schema, and no more rows than a 32-bit index counts.
\<close>

inductive runs :: "arrow_ops \<Rightarrow> ('w, 't, 'd) gpu_backend \<Rightarrow> backend_scope \<Rightarrow> ((i64 \<times> nat) list \<Rightarrow> (i64 \<times> nat) list)
    \<Rightarrow> (plan \<Rightarrow> row multiset list \<Rightarrow> row multiset \<Rightarrow> bool) \<Rightarrow> plan \<Rightarrow> batch list \<Rightarrow> bool" for A B S ord df_step where
  runs_gpu: "gpu_node p \<Longrightarrow> list_all2 (runs A B S ord df_step) (children p) bss \<Longrightarrow> in_scope S p bss
    \<Longrightarrow> executes A B ord p bss (map Inr bs)
    \<Longrightarrow> batches_of (plan_schema p) bs \<Longrightarrow> small_batches bs \<Longrightarrow> runs A B S ord df_step p bs"
| runs_df: "\<not> gpu_node p \<Longrightarrow> list_all2 (runs A B S ord df_step) (children p) bss \<Longrightarrow> df_step p (map rows_of bss) (rows_of bs)
    \<Longrightarrow> batches_of (plan_schema p) bs \<Longrightarrow> small_batches bs \<Longrightarrow> runs A B S ord df_step p bs"
monos list_all2_mono

lemma runs_sizes: "runs A B S ord df_step p bs \<Longrightarrow> batches_of (plan_schema p) bs \<and> small_batches bs"
  by (erule runs.cases) auto

context conforming_backend
begin

lemma runs_admitted:
  assumes "permutes_list ord" and "runs A B S ord df_step p bs" and "plan_wf p"
  shows "admits (node_step df_step agrees near) p (rows_of bs)"
  using assms(2,3)
proof (induction rule: runs.induct)
  case (runs_gpu p bss bs)
  have wf: "node_wf p" "\<forall>c \<in> set (children p). plan_wf c"
    using runs_gpu.prems by (simp_all add: plan_wf.simps [of p] list_all_iff)
  have sizes: "list_all2 (\<lambda>c bs. batches_of (plan_schema c) bs \<and> small_batches bs) (children p) bss"
    using runs_gpu.IH(1) by (rule list_all2_mono) (use runs_sizes in blast)
  have "gpu_step agrees near p (map rows_of bss) (rows_of bs)"
    by (rule node_delivers [OF assms(1) runs_gpu.hyps(1) wf(1) runs_gpu.hyps(3) sizes runs_gpu.hyps(2)])
  then have "node_step df_step agrees near p (map rows_of bss) (rows_of bs)" using runs_gpu.hyps(1) by (simp add: node_step_def)
  moreover have "list_all2 (admits (node_step df_step agrees near)) (children p) (map rows_of bss)"
    using runs_gpu.IH(1) wf(2) by (auto simp: list_all2_map2 list_all2_conv_all_nth)
  ultimately show ?case by (intro admitsI)
next
  case (runs_df p bss bs)
  have wf: "\<forall>c \<in> set (children p). plan_wf c"
    using runs_df.prems by (simp_all add: plan_wf.simps [of p] list_all_iff)
  have "list_all2 (admits (node_step df_step agrees near)) (children p) (map rows_of bss)"
    using runs_df.IH(1) wf by (auto simp: list_all2_map2 list_all2_conv_all_nth)
  moreover have "node_step df_step agrees near p (map rows_of bss) (rows_of bs)" using runs_df.hyps by (simp add: node_step_def)
  ultimately show ?case by (intro admitsI)
qed

end

section \<open>A run\<close>

lemma cpu_falls_back: "\<not> is_gpu (be_kind B) \<Longrightarrow> fst (with_fallback B supported what on_device reference n t st) = reference"
  by (simp add: with_fallback_def no_device_path_def call_then_def pure_call_def Let_def split: sum.split)

definition run_input :: batch where
  "run_input = \<lparr>schema = scan_schema, columns = [int64_array [Some 7, None, Some 3], float64_array [Some 0, Some 0, Some 0]], num_rows = 3\<rparr>"

definition run_kept :: batch where
  "run_kept = \<lparr>schema = scan_schema, columns = [int64_array [Some 7], float64_array [Some 0]], num_rows = 1\<rparr>"

definition run_sum :: f64 where "run_sum = foldl f64_add f64_zero [0]"

definition run_output :: batch where
  "run_output = \<lparr>schema = sum_schema, columns = [int64_array [Some 7], float64_array [Some run_sum]], num_rows = 1\<rparr>"

abbreviation run_backend :: "(unit, device_stream, unit device_batch) gpu_backend" where
  "run_backend \<equiv> cpu_backend rev arrow_ref"

lemma run_batches_ok: "batches_of scan_schema [run_input]" "batches_of scan_schema [run_kept]" "batches_of sum_schema [run_output]"
  by (simp_all add: run_input_def run_kept_def run_output_def batch_ok_def columns_fit_def column_fits_def scan_schema_def sum_schema_def
      array_ok_def int64_array_def float64_array_def)

lemma run_small: "small_batches [run_input]" "small_batches [run_kept]" "small_batches [run_output]"
  by (simp_all add: small_batches_def run_input_def run_kept_def run_output_def u32_max_def)

lemma run_filter: "filter_project arrow_ref run_input (Compare 0 Gt (LInt64 5)) [0, 1] = Inr run_kept"
proof -
  have ok: "batch_ok run_input" using run_batches_ok(1) by simp
  have "filter_project arrow_ref run_input (Compare 0 Gt (LInt64 5)) [0, 1]
      = Inr (gather_batch run_input (kept_rows run_input (Compare 0 Gt (LInt64 5))) [0, 1])"
    by (rule aref.filter_project_rows [OF ok]) (simp_all add: run_input_def)
  also have "kept_rows run_input (Compare 0 Gt (LInt64 5)) = [0]"
    by (simp add: kept_rows_def run_input_def int64_array_def upt_rec)
  also have "gather_batch run_input [0] [0, 1] = run_kept"
    by (simp add: gather_batch_def run_input_def run_kept_def take_array_def int64_array_def float64_array_def scan_schema_def)
  finally show ?thesis .
qed

lemma run_concat: "concat_batch scan_schema [run_kept] = run_kept"
  by (simp add: concat_batch_def run_kept_def scan_schema_def int64_array_def float64_array_def upt_rec)

lemma run_aggregate:
  "aggregate arrow_ref run_kept \<lparr>group_by = 0, aggregates = [(AggSum, 1)]\<rparr>
    = Inr \<lparr>schema = [Field ''k'' Int64 True, Field ''SUM(v)'' Float64 True],
           columns = [int64_array [Some 7], float64_array [Some run_sum]], num_rows = 1\<rparr>"
proof -
  let ?spec = "\<lparr>group_by = 0, aggregates = [(AggSum, 1)]\<rparr>"
  have ok: "batch_ok run_kept" using run_batches_ok(2) by simp
  have key: "key_column run_kept (group_by ?spec) [Some 7]" by (simp add: key_column_def run_kept_def)
  have "aggregable run_kept ?spec" "num_rows run_kept < 2 ^ 63"
    by (simp_all add: aggregable_def run_kept_def gpu_eligible_scalar_def)
  then have "aggregate arrow_ref run_kept ?spec = aggregate_result run_kept [Some 7] ?spec"
    by (rule aref.aggregate_rows [OF ok key])
  then show ?thesis
    by (simp add: aggregate_result_def sorted_keys_def group_rows_def group_values_def List.map_filter_def input_at_def run_kept_def
        float64_array_def aggregate_name_def scan_schema_def run_sum_def upt_rec)
qed

lemma run_on_cpu: "\<not> is_gpu (be_kind run_backend)"
  by (simp add: cpu_backend_defs)

lemma run_scan: "runs arrow_ref run_backend (unlimited u32_max) rev ref_step sample_scan [run_input]"
  by (rule runs_df [where bss = "[]"]) (use run_batches_ok(1) run_small(1) in \<open>simp_all add: sample_scan_def\<close>)

lemma run_filter_node: "runs arrow_ref run_backend (unlimited u32_max) rev ref_step placed_filter [run_kept]"
proof (rule runs_gpu [where bss = "[[run_input]]"])
  let ?g = "\<lparr>gf_predicate = Compare 0 Gt (LInt64 5), gf_projection = [0, 1],
     gf_props = \<lparr>np_schema = scan_schema, np_partitions = 4\<rparr>, gf_config = config_new Cuda\<rparr>"
  have "fst (filter_execute arrow_ref run_backend ?g (timed_stream [(3, run_input)]) (new_operator run_backend)) = [Inr run_kept]"
    by (simp add: filter_execute_def timed_stream_def op_filter_project_def split_beta cpu_falls_back [OF run_on_cpu]
        run_filter [simplified])
  then show "executes arrow_ref run_backend rev placed_filter [[run_input]] (map Inr [run_kept])"
    using executes_filter [of arrow_ref run_backend rev sample_scan ?g "[([(3, run_input)], new_operator run_backend)]"]
    by (simp add: placed_filter_def partition_batches_def)
qed (use run_batches_ok run_small run_scan in \<open>simp_all add: placed_filter_def small_batches_def\<close>)

lemma run_aggregate_node:
  assumes "plan_schema i = scan_schema" and "ga_spec g = \<lparr>group_by = 0, aggregates = [(AggSum, 1)]\<rparr>" and "np_schema (ga_props g) = sum_schema"
  shows "executes arrow_ref run_backend rev (GpuAggregateExec i g) [[run_kept]] (map Inr [run_output])"
proof -
  have "fst (aggregate_execute arrow_ref run_backend g scan_schema 0 (Inr [run_kept]) 3 (new_operator run_backend)) = [Inr run_output]"
  proof -
    have "a_concat arrow_ref scan_schema [run_kept] = Inr run_kept"
      using aref.concat_eq [of "[run_kept]" scan_schema] run_batches_ok(2) run_concat by simp
    moreover have "a_try_new arrow_ref sum_schema [int64_array [Some 7], float64_array [Some run_sum]] = Inr run_output"
      using run_batches_ok(3)
      by (subst aref.try_new_ok) (simp_all add: run_output_def batch_ok_def new_rows_def int64_array_def)
    moreover obtain r st where "op_aggregate arrow_ref run_backend 3 run_kept (ga_spec g) (new_operator run_backend) = (r, st)"
      by fastforce
    moreover have "fst (op_aggregate arrow_ref run_backend 3 run_kept (ga_spec g) (new_operator run_backend))
        = aggregate arrow_ref run_kept (ga_spec g)"
      by (simp add: op_aggregate_def cpu_falls_back [OF run_on_cpu])
    ultimately show ?thesis
      by (simp add: aggregate_execute_def assms(2,3) run_aggregate [simplified])
  qed
  moreover have "executes arrow_ref run_backend rev (GpuAggregateExec i g) [[run_kept]]
      (fst (aggregate_execute arrow_ref run_backend g (plan_schema i) 0 (Inr [run_kept]) 3 (new_operator run_backend)))"
    by (rule executes_aggregate) (simp add: assms run_concat run_aggregate [simplified])
  ultimately show ?thesis by (simp add: assms(1))
qed

lemma run_plan: "runs arrow_ref run_backend (unlimited u32_max) rev ref_step placed_plan [run_output]"
proof (rule runs_gpu [where bss = "[[run_kept]]"])
  have "runs arrow_ref run_backend (unlimited u32_max) rev ref_step (CoalescePartitionsExec placed_filter \<lparr>np_schema = scan_schema, np_partitions = 1\<rparr>) [run_kept]"
    by (rule runs_df [where bss = "[[run_kept]]"]) (use run_batches_ok run_small run_filter_node in simp_all)
  then show "list_all2 (runs arrow_ref run_backend (unlimited u32_max) rev ref_step) (children placed_plan) [[run_kept]]"
    by (simp add: placed_plan_def)
  show "executes arrow_ref run_backend rev placed_plan [[run_kept]] (map Inr [run_output])"
    unfolding placed_plan_def by (rule run_aggregate_node) simp_all
qed (use run_batches_ok run_small in \<open>simp_all add: placed_plan_def small_batches_def concat_batch_sizes\<close>)

lemma run_output_rows: "rows_of [run_output] = {#[Some (CInt 7), Some (CFloat run_sum)]#}"
  by (simp add: run_output_def batch_rows_def int64_array_def float64_array_def)

lemma placed_plan_run: "admits (node_step ref_step (=) (=)) placed_plan {#[Some (CInt 7), Some (CFloat run_sum)]#}"
proof -
  have "plan_wf placed_plan"
    using reference_plans.optimize_placed [OF sample_plan_wf sample_plan_placed] by (simp add: placed_as_def)
  then show ?thesis
    using cpu_ref.runs_admitted [OF _ run_plan, unfolded run_output_rows] by (simp add: permutes_list_def)
qed




end
