(* ===== verification/Device_Columns.thy ===== *)
theory Device_Columns
  imports Device_Backend
begin

unbundle bit_operations_syntax

text \<open>
  Columns as bytes (\<open>crates/oxidelake-device/src/columns.rs\<close>): the raw values and the packed validity
  bitmap of a column, cut out of an Arrow array for a transfer, and the array rebuilt from them.

  \<open>array_data\<close> is Arrow's physical layout of an array: length, offset, validity, buffers, children.
  \<open>read_data\<close> is its meaning by the columnar format, \<open>data_ok\<close> what a valid layout satisfies.  The
  functions of the Arrow crate that convert between arrays and layouts are the record \<open>layout_ops\<close>, and
  the locale \<open>arrow_layout\<close> states that they follow the format.  Bytes are little-endian, bitmaps have
  the least significant bit first.
\<close>

section \<open>Bytes\<close>

definition from_le :: "byte list \<Rightarrow> 'a :: len word" where
  "from_le bs = foldr (\<lambda>b acc. ucast b + 256 * acc) bs 0"

definition to_le :: "nat \<Rightarrow> 'a :: len word \<Rightarrow> byte list" where
  "to_le n w = map (\<lambda>k. ucast (drop_bit (8 * k) w)) [0..<n]"

definition slice_of :: "nat \<Rightarrow> nat \<Rightarrow> 'a list \<Rightarrow> 'a list" where
  "slice_of start len xs = take len (drop start xs)"

definition bit_at :: "byte list \<Rightarrow> nat \<Rightarrow> bool" where
  "bit_at bs i = bit (bs ! (i div 8)) (i mod 8)"

definition pack_byte :: "(nat \<Rightarrow> bool) \<Rightarrow> byte" where
  "pack_byte f = foldl (\<lambda>acc k. if f k then acc OR push_bit k 1 else acc) 0 [0..<8]"

definition pack_bits :: "bool list \<Rightarrow> byte list" where
  "pack_bits vs = map (\<lambda>b. pack_byte (\<lambda>k. 8 * b + k < length vs \<and> vs ! (8 * b + k))) [0..<(length vs + 7) div 8]"

definition u64_mul :: "nat \<Rightarrow> nat \<Rightarrow> nat" where
  [arith_defs]: "u64_mul a b = a * b mod 2 ^ 64"

lemma length_to_le [simp]: "length (to_le n w) = n"
  by (simp add: to_le_def)

lemma from_le_Cons: "(from_le (b # bs) :: 'a :: len word) = ucast b OR push_bit 8 (from_le bs)"
proof -
  have "from_le (b # bs) = ucast b + 256 * (from_le bs :: 'a word)" by (simp add: from_le_def)
  also have "256 * (from_le bs :: 'a word) = push_bit 8 (from_le bs)" by (simp add: push_bit_eq_mult mult.commute)
  also have "ucast b + push_bit 8 (from_le bs :: 'a word) = ucast b OR push_bit 8 (from_le bs)"
    by (rule disjunctive_add) (auto simp: bit_simps dest: bit_imp_le_length)
  finally show ?thesis .
qed

lemma bit_from_le: "bit (from_le bs :: 'a :: len word) n \<longleftrightarrow> n < LENGTH('a) \<and> n < 8 * length bs \<and> bit_at bs n"
proof (induction bs arbitrary: n)
  case Nil
  then show ?case by (simp add: from_le_def)
next
  case (Cons b bs)
  show ?case
  proof (cases "n < 8")
    case True
    then show ?thesis by (auto simp: from_le_Cons bit_simps bit_at_def)
  next
    case False
    then have "(b # bs) ! (n div 8) = bs ! ((n - 8) div 8)" "n mod 8 = (n - 8) mod 8"
      by (simp_all add: le_div_geq le_mod_geq)
    then have "bit_at (b # bs) n = bit_at bs (n - 8)" by (simp add: bit_at_def)
    moreover have "\<not> bit (ucast b :: 'a word) n" using False by (auto simp: bit_simps dest: bit_imp_le_length)
    ultimately show ?thesis using False Cons [of "n - 8"] by (auto simp: from_le_Cons bit_simps)
  qed
qed

lemma bit_at_to_le: "i < 8 * n \<Longrightarrow> bit_at (to_le n (w :: 'a :: len word)) i = bit w i"
  by (simp add: bit_at_def to_le_def bit_simps less_mult_imp_div_less)

lemma from_to_le: "LENGTH('a) \<le> 8 * n \<Longrightarrow> from_le (to_le n (w :: 'a :: len word)) = w"
  by (rule bit_word_eqI) (auto simp: bit_from_le bit_at_to_le)

lemma bit_pack_upto:
  "bit (foldl (\<lambda>acc k. if f k then acc OR push_bit k 1 else acc) (0 :: byte) [0..<n]) k \<longleftrightarrow> k < 8 \<and> k < n \<and> f k"
  by (induction n) (auto simp: bit_simps less_Suc_eq dest: bit_imp_le_length)

lemma bit_pack_byte: "k < 8 \<Longrightarrow> bit (pack_byte f) k = f k"
  by (simp add: pack_byte_def bit_pack_upto)

lemma length_pack_bits: "length (pack_bits vs) = (length vs + 7) div 8"
  by (simp add: pack_bits_def)

lemma bit_at_pack: "i < length vs \<Longrightarrow> bit_at (pack_bits vs) i = vs ! i"
proof -
  assume i: "i < length vs"
  then have "i div 8 < (length vs + 7) div 8" by (simp add: less_mult_imp_div_less)
  then show ?thesis using i by (simp add: bit_at_def pack_bits_def bit_pack_byte)
qed

lemma bit_at_take: "i < 8 * n \<Longrightarrow> n \<le> length bs \<Longrightarrow> bit_at (take n bs) i = bit_at bs i"
  by (simp add: bit_at_def less_mult_imp_div_less)

lemma bit_at_append: "i < 8 * length bs \<Longrightarrow> bit_at (bs @ cs) i = bit_at bs i"
  by (simp add: bit_at_def nth_append less_mult_imp_div_less)

lemma bit_at_drop: "n \<le> length bs \<Longrightarrow> bit_at (drop n bs) i = bit_at bs (8 * n + i)"
  by (simp add: bit_at_def)

lemma length_slice: "start + len \<le> length xs \<Longrightarrow> length (slice_of start len xs) = len"
  by (simp add: slice_of_def)

lemma slice_slice: "a + b \<le> len \<Longrightarrow> slice_of a b (slice_of start len xs) = slice_of (start + a) b xs"
  by (simp add: slice_of_def drop_take min_def add.commute)

lemma slice_append: "start + len \<le> length xs \<Longrightarrow> slice_of start len (xs @ ys) = slice_of start len xs"
  by (simp add: slice_of_def)

section \<open>Layouts of arrays\<close>

record null_buffer =
  nb_bytes :: "byte list"
  nb_offset :: nat
  nb_len :: nat

datatype array_data = ArrayData (ad_type: data_type) (ad_len: nat) (ad_offset: nat) (ad_nulls: "null_buffer option")
  (ad_buffers: "byte list list") (ad_children: "array_data list")

definition null_valid :: "null_buffer option \<Rightarrow> nat \<Rightarrow> bool" where
  "null_valid nulls i = (case nulls of None \<Rightarrow> True | Some nb \<Rightarrow> bit_at (nb_bytes nb) (nb_offset nb + i))"

fun primitive_width :: "data_type \<Rightarrow> nat option" where
  "primitive_width Int64 = Some 8"
| "primitive_width Float64 = Some 8"
| "primitive_width Float32 = Some 4"
| "primitive_width _ = None"

definition prim_cell :: "data_type \<Rightarrow> byte list \<Rightarrow> cell" where
  "prim_cell dt bs = (if dt = Int64 then CInt (from_le bs) else if dt = Float64 then CFloat (from_le bs) else CSingle (from_le bs))"

text \<open>The value of row \<open>i\<close>: a primitive from the first buffer, a list from the values of the child.\<close>

definition data_value :: "array_data \<Rightarrow> nat \<Rightarrow> nat \<Rightarrow> byte list" where
  "data_value d width i = slice_of ((ad_offset d + i) * width) width (hd (ad_buffers d))"

definition read_cell :: "array_data \<Rightarrow> nat \<Rightarrow> cell" where
  "read_cell d i = (case ad_type d of
      FixedSizeList f n \<Rightarrow> CVec (map (\<lambda>k. let j = (ad_offset d + i) * nat n + k; child = hd (ad_children d) in
        (null_valid (ad_nulls child) j, from_le (data_value child 4 j))) [0..<nat n])
    | dt \<Rightarrow> prim_cell dt (data_value d (case primitive_width dt of Some w \<Rightarrow> w | None \<Rightarrow> 0) i))"

definition read_data :: "array_data \<Rightarrow> array" where
  "read_data d = \<lparr>arr_type = ad_type d,
     cells = map (\<lambda>i. if null_valid (ad_nulls d) i then Some (read_cell d i) else None) [0..<ad_len d]\<rparr>"

definition nulls_ok :: "null_buffer option \<Rightarrow> nat \<Rightarrow> bool" where
  "nulls_ok nulls len = (case nulls of None \<Rightarrow> True
    | Some nb \<Rightarrow> nb_len nb = len \<and> nb_offset nb + nb_len nb \<le> 8 * length (nb_bytes nb))"

text \<open>A valid layout; no allocation exceeds half the address space.\<close>

definition prim_data_ok :: "array_data \<Rightarrow> nat \<Rightarrow> bool" where
  "prim_data_ok d width \<longleftrightarrow> nulls_ok (ad_nulls d) (ad_len d) \<and> ad_buffers d \<noteq> [] \<and>
     (ad_offset d + ad_len d) * width \<le> length (hd (ad_buffers d)) \<and> length (hd (ad_buffers d)) < 2 ^ 63"

definition data_ok :: "array_data \<Rightarrow> bool" where
  "data_ok d = (case ad_type d of
      FixedSizeList f n \<Rightarrow> field_type f = Float32 \<and> 0 \<le> n \<and> n < 2 ^ 31 \<and> nulls_ok (ad_nulls d) (ad_len d) \<and>
        (\<exists>child. ad_children d = [child] \<and> ad_type child = Float32 \<and> prim_data_ok child 4 \<and>
           (ad_offset d + ad_len d) * nat n \<le> ad_len child)
    | dt \<Rightarrow> (\<exists>w. primitive_width dt = Some w \<and> prim_data_ok d w))"

text \<open>The types whose layout is known here, and the bytes of one row.\<close>

fun packable :: "data_type \<Rightarrow> bool" where
  "packable (FixedSizeList f n) = (field_type f = Float32 \<and> 0 \<le> n \<and> n < 2 ^ 31)"
| "packable dt = (primitive_width dt \<noteq> None)"

fun row_bytes :: "data_type \<Rightarrow> nat" where
  "row_bytes (FixedSizeList f n) = nat n * 4"
| "row_bytes dt = (case primitive_width dt of Some w \<Rightarrow> w | None \<Rightarrow> 0)"

record layout_ops =
  lo_to_data :: "array \<Rightarrow> array_data"
  lo_build :: "array_data \<Rightarrow> arrow_error + array"

locale arrow_layout =
  fixes L :: layout_ops
  assumes to_data_type: "ad_type (lo_to_data L a) = arr_type a"
    and to_data_reads: "array_ok a \<Longrightarrow> packable (arr_type a) \<Longrightarrow> length (cells a) * row_bytes (arr_type a) < 2 ^ 63
      \<Longrightarrow> data_ok (lo_to_data L a) \<and> read_data (lo_to_data L a) = a"
    and build_reads: "data_ok d \<Longrightarrow> lo_build L d = Inr (read_data d)"

section \<open>Extraction\<close>

record column_bytes =
  cb_type :: data_type
  cb_len :: nat
  cb_values :: "byte list"
  cb_validity :: "byte list option"
  cb_child_len :: nat

definition total_bytes_of :: "column_bytes \<Rightarrow> nat" where
  "total_bytes_of c = length (cb_values c) + (case cb_validity c of None \<Rightarrow> 0 | Some v \<Rightarrow> length v)"

definition is_device_eligible :: "data_type \<Rightarrow> bool" where
  "is_device_eligible dt = (primitive_width dt \<noteq> None \<or> vector_dimension dt \<noteq> None)"

definition row_width :: "data_type \<Rightarrow> nat result" where
  "row_width dt = (case primitive_width dt of
      Some w \<Rightarrow> Inr w
    | None \<Rightarrow> ok_or (map_option (\<lambda>dim. dim * 4) (vector_dimension dt))
        (Err (Unsupported ''device.column_type'' [Ty dt, Txt '' columns are not device-resident in v1''])))"

text \<open>The bitmap from bit 0: the buffer's own bytes where the slice starts on a byte, else re-packed.\<close>

definition validity_bytes :: "null_buffer \<Rightarrow> byte list" where
  "validity_bytes nb = (if nb_offset nb mod 8 = 0 then slice_of (nb_offset nb div 8) ((nb_len nb + 7) div 8) (nb_bytes nb)
     else pack_bits (map (\<lambda>i. bit_at (nb_bytes nb) (nb_offset nb + i)) [0..<nb_len nb]))"

definition slice_checked :: "byte list \<Rightarrow> nat \<Rightarrow> nat \<Rightarrow> string \<Rightarrow> byte list result" where
  "slice_checked buffer start len what =
     (if u64_max < start + len then fail (Execution [Txt what, Txt '': buffer range overflows''])
      else if length buffer < start + len
      then fail (Format [Txt what, Txt '': array needs '', Num (start + len), Txt '' bytes but its buffer holds '', Num (length buffer)])
      else Inr (slice_of start len buffer))"

definition first_buffer :: "array_data \<Rightarrow> string \<Rightarrow> byte list result" where
  "first_buffer d what = (case ad_buffers d of [] \<Rightarrow> fail (Format [Txt what]) | b # _ \<Rightarrow> Inr b)"

definition extract_primitive :: "array_data \<Rightarrow> byte list option \<Rightarrow> nat \<Rightarrow> column_bytes result" where
  "extract_primitive d validity width =
     and_then (first_buffer d ''primitive array without a value buffer'') (\<lambda>buffer.
     and_then (slice_checked buffer (u64_mul (ad_offset d) width) (u64_mul (ad_len d) width) ''primitive column'') (\<lambda>values.
     Inr \<lparr>cb_type = ad_type d, cb_len = ad_len d, cb_values = values, cb_validity = validity, cb_child_len = 0\<rparr>))"

definition extract_vector :: "array_data \<Rightarrow> byte list option \<Rightarrow> int \<Rightarrow> column_bytes result" where
  "extract_vector d validity n =
     (if n < 0 then fail (Plan [Txt ''negative FixedSizeList size''])
      else case ad_children d of
        [] \<Rightarrow> fail (Format [Txt ''FixedSizeList array without child data''])
      | child # _ \<Rightarrow>
          and_then (first_buffer child ''FixedSizeList child without a value buffer'') (\<lambda>buffer.
          let sz = nat n; start = u64_mul (u64_add (ad_offset child) (u64_mul (ad_offset d) sz)) 4 in
          and_then (slice_checked buffer start (u64_mul (u64_mul (ad_len d) sz) 4) ''vector column'') (\<lambda>values.
          Inr \<lparr>cb_type = ad_type d, cb_len = ad_len d, cb_values = values, cb_validity = validity,
               cb_child_len = u64_mul (ad_len d) sz\<rparr>)))"

definition not_resident :: "data_type \<Rightarrow> engine_error" where
  "not_resident dt = Unsupported ''device.column_type'' [Ty dt, Txt '' columns are not device-resident in v1'']"

definition extract_data :: "array_data \<Rightarrow> column_bytes result" where
  "extract_data d = (let validity = map_option validity_bytes (ad_nulls d) in
     case ad_type d of
       FixedSizeList f n \<Rightarrow> if field_type f = Float32 then extract_vector d validity n else fail (not_resident (ad_type d))
     | dt \<Rightarrow> (case primitive_width dt of Some w \<Rightarrow> extract_primitive d validity w | None \<Rightarrow> fail (not_resident dt)))"

definition extract_array :: "layout_ops \<Rightarrow> array \<Rightarrow> column_bytes result" where
  "extract_array L a = extract_data (lo_to_data L a)"

section \<open>Rebuilding\<close>

definition null_buffer_new :: "byte list option \<Rightarrow> nat \<Rightarrow> null_buffer option result" where
  "null_buffer_new validity len = (case validity of
      None \<Rightarrow> Inr None
    | Some bytes \<Rightarrow> if 8 * length bytes < len then Inl (Panic ''buffer not large enough'')
        else Inr (Some \<lparr>nb_bytes = bytes, nb_offset = 0, nb_len = len\<rparr>))"

definition rebuild :: "layout_ops \<Rightarrow> column_bytes \<Rightarrow> array result" where
  "rebuild L c =
     and_then (null_buffer_new (cb_validity c) (cb_len c)) (\<lambda>nulls.
     case cb_type c of
       FixedSizeList f n \<Rightarrow>
         let child = ArrayData (field_type f) (cb_child_len c) 0 None [cb_values c] [] in
         and_then (lift_arrow (lo_build L child)) (\<lambda>_.
         lift_arrow (lo_build L (ArrayData (cb_type c) (cb_len c) 0 nulls [] [child])))
     | dt \<Rightarrow> (case primitive_width dt of
         Some w \<Rightarrow> lift_arrow (lo_build L (ArrayData dt (cb_len c) 0 nulls [cb_values c] []))
       | None \<Rightarrow> fail (Unsupported ''device.column_type'' [Txt ''cannot rebuild '', Ty dt, Txt '' columns''])))"

definition extract_batch :: "layout_ops \<Rightarrow> batch \<Rightarrow> column_bytes list result" where
  "extract_batch L b = collect_res (extract_array L) (columns b)"

definition rebuild_batch :: "arrow_ops \<Rightarrow> layout_ops \<Rightarrow> field list \<Rightarrow> column_bytes list \<Rightarrow> batch result" where
  "rebuild_batch A L fs cs = and_then (collect_res (rebuild L) cs) (\<lambda>arrays. lift_arrow (a_try_new A fs arrays))"

section \<open>Packed columns\<close>

text \<open>
  What packed bytes stand for: row \<open>i\<close> is \<open>NULL\<close> where its validity bit is clear, otherwise the value of its
  bytes.  The elements of a list carry no validity of their own.
\<close>

fun packed_cell :: "data_type \<Rightarrow> byte list \<Rightarrow> cell" where
  "packed_cell (FixedSizeList f n) bs = CVec (map (\<lambda>k. (True, from_le (slice_of (4 * k) 4 bs))) [0..<nat n])"
| "packed_cell dt bs = prim_cell dt bs"

definition valid_bit :: "byte list option \<Rightarrow> nat \<Rightarrow> bool" where
  "valid_bit validity i = (case validity of None \<Rightarrow> True | Some bs \<Rightarrow> bit_at bs i)"

definition packed_cells :: "data_type \<Rightarrow> nat \<Rightarrow> byte list \<Rightarrow> byte list option \<Rightarrow> cell option list" where
  "packed_cells dt len values validity =
     map (\<lambda>i. if valid_bit validity i then Some (packed_cell dt (slice_of (i * row_bytes dt) (row_bytes dt) values)) else None) [0..<len]"

definition packs :: "data_type \<Rightarrow> nat \<Rightarrow> byte list \<Rightarrow> byte list option \<Rightarrow> array \<Rightarrow> bool" where
  "packs dt len values validity a \<longleftrightarrow> packable dt \<and> arr_type a = dt \<and> cells a = packed_cells dt len values validity \<and>
     len * row_bytes dt \<le> length values \<and> len * row_bytes dt < 2 ^ 63 \<and> (\<forall>bs. validity = Some bs \<longrightarrow> len \<le> 8 * length bs)"

text \<open>Lists whose elements are all valid.\<close>

fun elements_valid :: "cell \<Rightarrow> bool" where
  "elements_valid (CVec v) = list_all fst v"
| "elements_valid _ = True"

definition column_valid :: "array \<Rightarrow> bool" where
  "column_valid a = list_all (\<lambda>c. case c of None \<Rightarrow> True | Some v \<Rightarrow> elements_valid v) (cells a)"

text \<open>The column with every element of its lists valid.\<close>

fun fill_cell :: "cell \<Rightarrow> cell" where
  "fill_cell (CVec v) = CVec (map (\<lambda>e. (True, snd e)) v)"
| "fill_cell c = c"

definition fill :: "array \<Rightarrow> array" where
  "fill a = a\<lparr>cells := map (map_option fill_cell) (cells a)\<rparr>"

lemma fill_cell_valid: "fill_cell c = c \<longleftrightarrow> elements_valid c"
proof (cases c)
  case (CVec v)
  have "map (\<lambda>e. (True, snd e)) v = v \<longleftrightarrow> list_all fst v" by (induction v) (auto simp: prod_eq_iff)
  then show ?thesis using CVec by simp
qed simp_all

lemma fill_valid: "fill a = a \<longleftrightarrow> column_valid a"
proof -
  have "map (map_option fill_cell) cs = cs \<longleftrightarrow> list_all (\<lambda>c. case c of None \<Rightarrow> True | Some v \<Rightarrow> elements_valid v) cs" for cs
    by (induction cs) (auto simp: fill_cell_valid split: option.splits)
  then show ?thesis by (cases a) (simp add: fill_def column_valid_def)
qed

lemma fill_simps [simp]: "arr_type (fill a) = arr_type a" "length (cells (fill a)) = length (cells a)"
  by (simp_all add: fill_def)

lemma packs_length: "packs dt len values validity a \<Longrightarrow> length (cells a) = len"
  by (simp add: packs_def packed_cells_def)

lemma packs_cong:
  assumes "packs dt len values validity a"
    and "\<And>i. i < len \<Longrightarrow> slice_of (i * row_bytes dt) (row_bytes dt) values' = slice_of (i * row_bytes dt) (row_bytes dt) values"
    and "\<And>i. i < len \<Longrightarrow> valid_bit validity' i = valid_bit validity i"
    and "len * row_bytes dt \<le> length values'" and "\<And>bs. validity' = Some bs \<Longrightarrow> len \<le> 8 * length bs"
  shows "packs dt len values' validity' a"
  using assms by (simp add: packs_def packed_cells_def)

lemma validity_bytes_bits:
  assumes "nulls_ok (Some nb) len" and "i < len"
  shows "bit_at (validity_bytes nb) i = bit_at (nb_bytes nb) (nb_offset nb + i)" and "len \<le> 8 * length (validity_bytes nb)"
proof -
  have nb: "nb_len nb = len" "nb_offset nb + len \<le> 8 * length (nb_bytes nb)" using assms(1) by (auto simp: nulls_ok_def)
  show "bit_at (validity_bytes nb) i = bit_at (nb_bytes nb) (nb_offset nb + i)"
  proof (cases "nb_offset nb mod 8 = 0")
    case True
    then have o: "nb_offset nb = 8 * (nb_offset nb div 8)" by presburger
    have "nb_offset nb div 8 + (len + 7) div 8 \<le> length (nb_bytes nb)" using nb(2) o by linarith
    then have "bit_at (slice_of (nb_offset nb div 8) ((len + 7) div 8) (nb_bytes nb)) i
        = bit_at (drop (nb_offset nb div 8) (nb_bytes nb)) i"
      unfolding slice_of_def using assms(2) by (intro bit_at_take) auto
    also have "\<dots> = bit_at (nb_bytes nb) (nb_offset nb + i)" using nb(2) o by (subst bit_at_drop) auto
    finally show ?thesis using True nb(1) by (simp add: validity_bytes_def)
  qed (use nb assms(2) in \<open>simp add: validity_bytes_def bit_at_pack\<close>)
  show "len \<le> 8 * length (validity_bytes nb)"
    using nb by (auto simp: validity_bytes_def length_pack_bits slice_of_def)
qed

lemma validity_bytes_valid:
  assumes "nulls_ok nulls len"
  shows "i < len \<Longrightarrow> valid_bit (map_option validity_bytes nulls) i = null_valid nulls i"
    and "map_option validity_bytes nulls = Some bs \<Longrightarrow> len \<le> 8 * length bs"
proof -
  show "valid_bit (map_option validity_bytes nulls) i = null_valid nulls i" if "i < len"
    using validity_bytes_bits(1) [of _ len i] assms that by (cases nulls) (auto simp: valid_bit_def null_valid_def)
  show "len \<le> 8 * length bs" if bs: "map_option validity_bytes nulls = Some bs"
  proof (cases "len = 0")
    case False
    then show ?thesis using validity_bytes_bits(2) [of _ len 0] assms bs by (cases nulls) auto
  qed simp
qed

lemma slice_checked_ok:
  "start + len \<le> length buffer \<Longrightarrow> length buffer < 2 ^ 63 \<Longrightarrow> slice_checked buffer start len what = Inr (slice_of start len buffer)"
  by (simp add: slice_checked_def u64_max_def)

lemma u64_mul_exact: "a * b < 2 ^ 63 \<Longrightarrow> u64_mul a b = a * b"
  by (simp add: u64_mul_def)

lemma packed_values:
  assumes "\<And>i. i < len \<Longrightarrow> null_valid nulls i \<Longrightarrow> data_cell i = packed_cell dt (slice_of (start + i * row_bytes dt) (row_bytes dt) buffer)"
    and "packable dt" and "start + len * row_bytes dt \<le> length buffer" and "length buffer < 2 ^ 63" and "nulls_ok nulls len"
  shows "packs dt len (slice_of start (len * row_bytes dt) buffer) (map_option validity_bytes nulls)
    \<lparr>arr_type = dt, cells = map (\<lambda>i. if null_valid nulls i then Some (data_cell i) else None) [0..<len]\<rparr>"
proof -
  have "data_cell i = packed_cell dt (slice_of (i * row_bytes dt) (row_bytes dt) (slice_of start (len * row_bytes dt) buffer))"
    if "i < len" "null_valid nulls i" for i
  proof -
    have "i * row_bytes dt + row_bytes dt \<le> len * row_bytes dt" using mult_le_mono1 [of "Suc i" len "row_bytes dt"] that(1) by simp
    then show ?thesis using assms(1) [OF that] by (simp add: slice_slice)
  qed
  then show ?thesis
    using assms(2-4) validity_bytes_valid [OF assms(5)]
    by (auto simp: packs_def packed_cells_def length_slice)
qed

lemma read_vector:
  assumes "ad_type d = FixedSizeList f n"
  shows "fill_cell (read_cell d i) = packed_cell (ad_type d)
    (slice_of ((ad_offset (hd (ad_children d)) + (ad_offset d + i) * nat n) * 4) (nat n * 4) (hd (ad_buffers (hd (ad_children d)))))"
proof -
  have "slice_of (4 * k) 4 (slice_of ((ad_offset c + (ad_offset d + i) * nat n) * 4) (nat n * 4) buf)
      = slice_of ((ad_offset c + ((ad_offset d + i) * nat n + k)) * 4) 4 buf" if "k < nat n" for k c and buf :: "byte list"
    using that by (subst slice_slice) (simp_all add: algebra_simps)
  then show ?thesis by (auto simp: read_cell_def assms Let_def data_value_def)
qed

lemma fill_read:
  "fill (read_data d) = \<lparr>arr_type = ad_type d,
     cells = map (\<lambda>i. if null_valid (ad_nulls d) i then Some (fill_cell (read_cell d i)) else None) [0..<ad_len d]\<rparr>"
  by (simp add: fill_def read_data_def)

lemma below_limit:
  fixes a b c m B :: nat
  shows "(a + b) * 4 + c * 4 \<le> B \<Longrightarrow> B < m \<Longrightarrow> b < m \<and> a + b < m \<and> (a + b) * 4 < m \<and> c < m \<and> c * 4 < m"
  by auto

lemma extract_data_packs:
  assumes "data_ok d"
  shows "\<exists>c. extract_data d = Inr c \<and> cb_type c = ad_type d \<and> cb_len c = ad_len d \<and>
    packs (ad_type d) (ad_len d) (cb_values c) (cb_validity c) (fill (read_data d)) \<and>
    length (cb_values c) = ad_len d * row_bytes (ad_type d) \<and>
    cb_child_len c = (case ad_type d of FixedSizeList f n \<Rightarrow> ad_len d * nat n | _ \<Rightarrow> 0)"
proof (cases "primitive_width (ad_type d)")
  case (Some w)
  then have prim: "prim_data_ok d w" "packable (ad_type d)" "row_bytes (ad_type d) = w"
    and cell: "fill_cell (read_cell d i) = packed_cell (ad_type d) (slice_of (ad_offset d * w + i * w) w (hd (ad_buffers d)))" for i
    using assms by (cases "ad_type d"; simp add: data_ok_def read_cell_def data_value_def add_mult_distrib prim_cell_def)+
  then obtain buffer bs where buffer: "ad_buffers d = buffer # bs" "length buffer < 2 ^ 63"
      "ad_offset d * w + ad_len d * w \<le> length buffer" and nulls: "nulls_ok (ad_nulls d) (ad_len d)"
    by (cases "ad_buffers d") (auto simp: prim_data_ok_def algebra_simps)
  have "extract_data d = extract_primitive d (map_option validity_bytes (ad_nulls d)) w"
    using Some by (cases "ad_type d") (simp_all add: extract_data_def)
  also have "\<dots> = Inr \<lparr>cb_type = ad_type d, cb_len = ad_len d, cb_values = slice_of (ad_offset d * w) (ad_len d * w) buffer,
      cb_validity = map_option validity_bytes (ad_nulls d), cb_child_len = 0\<rparr>"
    using buffer by (simp add: extract_primitive_def first_buffer_def u64_mul_exact slice_checked_ok)
  finally have ex: "extract_data d = Inr \<lparr>cb_type = ad_type d, cb_len = ad_len d, cb_values = slice_of (ad_offset d * w) (ad_len d * w) buffer,
      cb_validity = map_option validity_bytes (ad_nulls d), cb_child_len = 0\<rparr>" .
  have "packs (ad_type d) (ad_len d) (slice_of (ad_offset d * w) (ad_len d * w) buffer) (map_option validity_bytes (ad_nulls d)) (fill (read_data d))"
    using packed_values [of "ad_len d" "ad_nulls d" "\<lambda>i. fill_cell (read_cell d i)" "ad_type d" "ad_offset d * w" buffer] cell prim buffer nulls
    by (simp add: fill_read)
  then show ?thesis using ex buffer prim(3) Some by (cases "ad_type d") (auto simp: length_slice)
next
  case None
  then obtain f n child where ty: "ad_type d = FixedSizeList f n" and n: "field_type f = Float32" "0 \<le> n" "n < 2 ^ 31"
      and child: "ad_children d = [child]" "prim_data_ok child 4" "(ad_offset d + ad_len d) * nat n \<le> ad_len child"
      and nulls: "nulls_ok (ad_nulls d) (ad_len d)"
    using assms by (cases "ad_type d") (auto simp: data_ok_def)
  then obtain buffer bs where buffer: "ad_buffers child = buffer # bs" "length buffer < 2 ^ 63"
      "(ad_offset child + ad_len child) * 4 \<le> length buffer"
    by (cases "ad_buffers child") (auto simp: prim_data_ok_def)
  let ?start = "(ad_offset child + ad_offset d * nat n) * 4" and ?len = "ad_len d * nat n * 4"
  have room: "?start + ?len \<le> length buffer" using child(3) buffer(3) by (simp add: algebra_simps)
  then have small: "ad_offset d * nat n < 2 ^ 63 \<and> ad_offset child + ad_offset d * nat n < 2 ^ 63 \<and> ?start < 2 ^ 63 \<and>
      ad_len d * nat n < 2 ^ 63 \<and> ?len < 2 ^ 63"
    using buffer(2) by (rule below_limit)
  have "extract_data d = Inr \<lparr>cb_type = ad_type d, cb_len = ad_len d, cb_values = slice_of ?start ?len buffer,
      cb_validity = map_option validity_bytes (ad_nulls d), cb_child_len = ad_len d * nat n\<rparr>"
    using n child(1) buffer room small
    by (simp add: extract_data_def ty extract_vector_def first_buffer_def Let_def u64_mul_exact u64_add_exact u64_max_def slice_checked_ok)
  moreover have "packs (ad_type d) (ad_len d) (slice_of ?start (ad_len d * row_bytes (ad_type d)) buffer)
      (map_option validity_bytes (ad_nulls d)) (fill (read_data d))"
    unfolding fill_read
  proof (rule packed_values)
    fix i
    show "fill_cell (read_cell d i) = packed_cell (ad_type d) (slice_of (?start + i * row_bytes (ad_type d)) (row_bytes (ad_type d)) buffer)"
      using read_vector [OF ty, of i] child(1) buffer(1) ty by (simp add: algebra_simps)
  qed (use n ty room buffer nulls in \<open>simp_all add: mult.assoc\<close>)
  ultimately show ?thesis using room ty by (simp add: length_slice mult.assoc)
qed

text \<open>Packed bytes, possibly longer than needed, rebuild the array they stand for.\<close>

context arrow_layout
begin

lemma rebuild_packs:
  assumes "packs dt len values validity a" and "child_len = (case dt of FixedSizeList f n \<Rightarrow> len * nat n | _ \<Rightarrow> 0)"
    and "length values < 2 ^ 63"
  shows "rebuild L \<lparr>cb_type = dt, cb_len = len, cb_values = values, cb_validity = validity, cb_child_len = child_len\<rparr> = Inr a"
proof -
  let ?nulls = "map_option (\<lambda>bs. \<lparr>nb_bytes = bs, nb_offset = 0, nb_len = len\<rparr>) validity"
  have pk: "packable dt" "arr_type a = dt" "cells a = packed_cells dt len values validity" "len * row_bytes dt \<le> length values"
    and bits: "\<And>bs. validity = Some bs \<Longrightarrow> len \<le> 8 * length bs"
    using assms(1) by (auto simp: packs_def)
  have nulls: "null_buffer_new validity len = Inr ?nulls" "nulls_ok ?nulls len" "null_valid ?nulls = valid_bit validity"
    using bits by (cases validity; force simp: null_buffer_new_def nulls_ok_def null_valid_def valid_bit_def fun_eq_iff)+
  show ?thesis
  proof (cases "primitive_width dt")
    case (Some w)
    let ?d = "ArrayData dt len 0 ?nulls [values] []"
    have "data_ok ?d" using Some pk(1,4) nulls(2) assms(3)
      by (cases dt) (auto simp: data_ok_def prim_data_ok_def)
    moreover have "read_data ?d = a" using Some pk(1-3) nulls(3)
      by (cases dt) (auto simp: read_data_def read_cell_def data_value_def packed_cells_def)
    ultimately show ?thesis using Some nulls(1) build_reads [of ?d] by (cases dt) (simp_all add: rebuild_def)
  next
    case None
    then obtain f n where dt: "dt = FixedSizeList f n" "field_type f = Float32" "0 \<le> n" "n < 2 ^ 31" using pk(1) by (cases dt) auto
    let ?c = "ArrayData Float32 (len * nat n) 0 None [values] []"
    let ?d = "ArrayData dt len 0 ?nulls [] [?c]"
    have c: "prim_data_ok ?c 4" using pk(4) dt assms(3) by (simp add: prim_data_ok_def nulls_ok_def mult.assoc)
    then have "data_ok ?c" "data_ok ?d" using dt nulls(2) by (simp_all add: data_ok_def)
    moreover have "read_data ?d = a"
    proof -
      have "read_cell ?d i = packed_cell dt (slice_of (i * row_bytes dt) (row_bytes dt) values)" if "i < len" for i
        using dt by (auto simp: read_cell_def data_value_def null_valid_def Let_def slice_slice algebra_simps)
      then show ?thesis using pk(2,3) nulls(3) by (auto simp: read_data_def packed_cells_def)
    qed
    ultimately show ?thesis using nulls(1) dt assms(2) build_reads [of ?c] build_reads [of ?d] by (simp add: rebuild_def Let_def)
  qed
qed

end

section \<open>A reference layout\<close>

definition cell_bytes :: "nat \<Rightarrow> cell option \<Rightarrow> byte list" where
  "cell_bytes w c = (case c of Some (CInt v) \<Rightarrow> to_le w v | Some (CFloat v) \<Rightarrow> to_le w v | Some (CSingle v) \<Rightarrow> to_le w v
    | _ \<Rightarrow> replicate w 0)"

definition nulls_for :: "bool list \<Rightarrow> null_buffer option" where
  "nulls_for vs = (if list_all id vs then None else Some \<lparr>nb_bytes = pack_bits vs, nb_offset = 0, nb_len = length vs\<rparr>)"

definition cell_elements :: "nat \<Rightarrow> cell option \<Rightarrow> (bool \<times> f32) list" where
  "cell_elements n c = (case c of Some (CVec v) \<Rightarrow> v | _ \<Rightarrow> replicate n (False, 0))"

definition float_child :: "(bool \<times> f32) list \<Rightarrow> array_data" where
  "float_child es = ArrayData Float32 (length es) 0 (nulls_for (map fst es)) [concat (map (\<lambda>e. to_le 4 (snd e)) es)] []"

definition ref_to_data :: "array \<Rightarrow> array_data" where
  "ref_to_data a = (let nulls = nulls_for (map (\<lambda>c. c \<noteq> None) (cells a)) in
     case arr_type a of
       FixedSizeList f n \<Rightarrow> ArrayData (arr_type a) (length (cells a)) 0 nulls []
         [float_child (concat (map (cell_elements (nat n)) (cells a)))]
     | dt \<Rightarrow> ArrayData dt (length (cells a)) 0 nulls [concat (map (cell_bytes (row_bytes dt)) (cells a))] [])"

definition ref_layout :: layout_ops where
  "ref_layout = \<lparr>lo_to_data = ref_to_data, lo_build = (\<lambda>d. if data_ok d then Inr (read_data d) else Inl (ArrowOther ''invalid layout''))\<rparr>"

lemma length_concat_fixed: "\<forall>x \<in> set xs. length x = w \<Longrightarrow> length (concat xs) = length xs * w"
  by (induction xs) auto

lemma slice_concat: "\<forall>x \<in> set xs. length x = w \<Longrightarrow> i < length xs \<Longrightarrow> slice_of (i * w) w (concat xs) = xs ! i"
proof (induction xs arbitrary: i)
  case (Cons x xs)
  show ?case
  proof (cases i)
    case (Suc j)
    then have "slice_of (i * w) w (concat (x # xs)) = slice_of (j * w) w (concat xs)" using Cons.prems(1) by (simp add: slice_of_def)
    then show ?thesis using Cons Suc by simp
  qed (use Cons.prems in \<open>simp add: slice_of_def\<close>)
qed simp

lemma nth_concat_fixed:
  assumes "\<forall>x \<in> set xs. length x = w" and "i < length xs" and "k < w"
  shows "concat xs ! (i * w + k) = xs ! i ! k"
proof -
  have "i * w + w \<le> length (concat xs)"
    using length_concat_fixed [OF assms(1)] mult_le_mono1 [of "Suc i" "length xs" w] assms(2) by simp
  then have "slice_of (i * w) w (concat xs) ! k = concat xs ! (i * w + k)" using assms(3) by (simp add: slice_of_def)
  then show ?thesis using slice_concat [OF assms(1,2)] by simp
qed

lemma nulls_for_ok: "nulls_ok (nulls_for vs) (length vs)" "i < length vs \<Longrightarrow> null_valid (nulls_for vs) i = vs ! i"
  by (auto simp: nulls_for_def nulls_ok_def null_valid_def length_pack_bits bit_at_pack list_all_length)

lemma float_child_ok:
  assumes "length es * 4 < 2 ^ 63"
  shows "prim_data_ok (float_child es) 4"
    and "j < length es \<Longrightarrow> data_value (float_child es) 4 j = to_le 4 (snd (es ! j))"
proof -
  have len: "length (concat (map (\<lambda>e. to_le 4 (snd e)) es)) = length es * 4"
    using length_concat_fixed [of "map (\<lambda>e. to_le 4 (snd e)) es" 4] by simp
  then show "prim_data_ok (float_child es) 4"
    using assms nulls_for_ok(1) [of "map fst es"] by (simp add: float_child_def prim_data_ok_def del: length_concat)
  show "data_value (float_child es) 4 j = to_le 4 (snd (es ! j))" if "j < length es"
    using slice_concat [of "map (\<lambda>e. to_le 4 (snd e)) es" 4 j] that by (simp add: float_child_def data_value_def)
qed

lemma prim_layout:
  assumes "array_ok a" and "primitive_width (arr_type a) = Some w" and "length (cells a) * w < 2 ^ 63"
  shows "data_ok (ref_to_data a) \<and> read_data (ref_to_data a) = a"
proof -
  let ?dt = "arr_type a" and ?nulls = "nulls_for (map (\<lambda>c. c \<noteq> None) (cells a))" and ?vals = "concat (map (cell_bytes w) (cells a))"
  have w: "row_bytes ?dt = w" using assms(2) by (cases ?dt) auto
  have d: "ref_to_data a = ArrayData ?dt (length (cells a)) 0 ?nulls [?vals] []"
    using assms(2) w by (cases ?dt) (auto simp: ref_to_data_def Let_def)
  have each: "\<forall>x \<in> set (map (cell_bytes w) (cells a)). length x = w"
    by (auto simp: cell_bytes_def split: option.splits cell.splits)
  have len: "length ?vals = length (cells a) * w" using length_concat_fixed [OF each] by simp
  have "nulls_ok ?nulls (length (cells a))" using nulls_for_ok(1) [of "map (\<lambda>c. c \<noteq> None) (cells a)"] by simp
  then have "data_ok (ref_to_data a)" using assms(2,3) len
    by (cases ?dt) (auto simp: d data_ok_def prim_data_ok_def simp del: length_concat)
  moreover have "read_cell (ref_to_data a) i = v" if i: "i < length (cells a)" and v: "cells a ! i = Some v" for i v
  proof -
    have "data_value (ref_to_data a) w i = cell_bytes w (Some v)"
      using slice_concat [OF each, of i] i v by (simp add: d data_value_def)
    moreover have "cell_ok ?dt v" using assms(1) i v nth_mem [OF i] by (fastforce simp: array_ok_def list_all_iff)
    ultimately show ?thesis using assms(2)
      by (cases ?dt) (auto simp: read_cell_def d prim_cell_def cell_bytes_def from_to_le split: cell.splits)
  qed
  then have "cells (read_data (ref_to_data a)) = cells a"
    by (intro nth_equalityI) (auto simp: read_data_def d nulls_for_ok(2))
  then show ?thesis using calculation by (simp add: read_data_def d)
qed

lemma vector_layout:
  assumes "array_ok a" and "arr_type a = FixedSizeList f n" and "packable (arr_type a)"
    and "length (cells a) * row_bytes (arr_type a) < 2 ^ 63"
  shows "data_ok (ref_to_data a) \<and> read_data (ref_to_data a) = a"
proof -
  let ?nulls = "nulls_for (map (\<lambda>c. c \<noteq> None) (cells a))" and ?rows = "map (cell_elements (nat n)) (cells a)"
  let ?child = "float_child (concat ?rows)"
  have n: "field_type f = Float32" "0 \<le> n" "n < 2 ^ 31" using assms(2,3) by auto
  have d: "ref_to_data a = ArrayData (FixedSizeList f n) (length (cells a)) 0 ?nulls [] [?child]"
    using assms(2) by (simp add: ref_to_data_def Let_def)
  have ok: "cell_ok (FixedSizeList f n) v" if "Some v \<in> set (cells a)" for v
    using assms(1,2) that by (fastforce simp: array_ok_def list_all_iff)
  have each: "\<forall>x \<in> set ?rows. length x = nat n"
    using ok n by (fastforce simp: cell_elements_def split: option.splits cell.splits)
  have len: "length (concat ?rows) = length (cells a) * nat n" using length_concat_fixed [OF each] by simp
  have small: "length (concat ?rows) * 4 < 2 ^ 63" using assms(2,4) len by (simp add: mult.assoc del: length_concat)
  have child: "prim_data_ok ?child 4" "ad_type ?child = Float32" "ad_len ?child = length (cells a) * nat n"
    "ad_nulls ?child = nulls_for (map fst (concat ?rows))"
    using float_child_ok(1) [OF small] len by (simp_all add: float_child_def del: length_concat)
  have "nulls_ok ?nulls (length (cells a))" using nulls_for_ok(1) [of "map (\<lambda>c. c \<noteq> None) (cells a)"] by simp
  then have "data_ok (ref_to_data a)" using n child by (simp add: d data_ok_def)
  moreover have "read_cell (ref_to_data a) i = v" if i: "i < length (cells a)" and v: "cells a ! i = Some v" for i v
  proof -
    have "Some v \<in> set (cells a)" using v nth_mem [OF i] by simp
    then obtain es where es: "v = CVec es" "length es = nat n" using ok [of v] n by (cases v) auto
    have "(null_valid (ad_nulls ?child) (i * nat n + k), from_le (data_value ?child 4 (i * nat n + k))) = es ! k" if k: "k < nat n" for k
    proof -
      have "concat ?rows ! (i * nat n + k) = es ! k"
        using nth_concat_fixed [OF each _ k, of i] i v es by (simp add: cell_elements_def)
      moreover have "i * nat n + k < length (concat ?rows)"
        using len mult_le_mono1 [of "Suc i" "length (cells a)" "nat n"] i k by simp
      ultimately show ?thesis
        using float_child_ok(2) [OF small, of "i * nat n + k"] nulls_for_ok(2) [of "i * nat n + k" "map fst (concat ?rows)"]
        by (simp add: child(4) from_to_le del: length_concat map_concat)
    qed
    then have "read_cell (ref_to_data a) i = CVec (map (\<lambda>k. es ! k) [0..<nat n])"
      by (simp add: read_cell_def d Let_def)
    then show ?thesis using es map_nth [of es] by simp
  qed
  then have "cells (read_data (ref_to_data a)) = cells a"
    by (intro nth_equalityI) (auto simp: read_data_def d nulls_for_ok(2))
  then show ?thesis using calculation assms(2) by (simp add: read_data_def d)
qed

interpretation lref: arrow_layout ref_layout
proof
  fix a
  show "ad_type (lo_to_data ref_layout a) = arr_type a" by (cases "arr_type a") (auto simp: ref_layout_def ref_to_data_def Let_def)
  assume "array_ok a" and "packable (arr_type a)" and "length (cells a) * row_bytes (arr_type a) < 2 ^ 63"
  then show "data_ok (lo_to_data ref_layout a) \<and> read_data (lo_to_data ref_layout a) = a"
    using prim_layout [of a] vector_layout [of a] by (cases "arr_type a") (auto simp: ref_layout_def)
qed (simp add: ref_layout_def)

section \<open>Properties\<close>

context arrow_layout
begin

lemma extract_packs:
  assumes "array_ok a" and "packable (arr_type a)" and "length (cells a) * row_bytes (arr_type a) < 2 ^ 63"
  obtains c where "extract_array L a = Inr c" and "cb_type c = arr_type a" and "cb_len c = length (cells a)"
    and "packs (arr_type a) (length (cells a)) (cb_values c) (cb_validity c) (fill a)"
    and "length (cb_values c) = length (cells a) * row_bytes (arr_type a)"
    and "cb_child_len c = (case arr_type a of FixedSizeList f n \<Rightarrow> length (cells a) * nat n | _ \<Rightarrow> 0)"
proof -
  let ?d = "lo_to_data L a"
  have d: "data_ok ?d" "read_data ?d = a" using to_data_reads [OF assms] by auto
  have "length (cells (read_data ?d)) = ad_len ?d" by (simp add: read_data_def)
  then have len: "ad_len ?d = length (cells a)" using d(2) by simp
  from extract_data_packs [OF d(1)] obtain c where "extract_data ?d = Inr c \<and> cb_type c = ad_type ?d \<and> cb_len c = ad_len ?d \<and>
    packs (ad_type ?d) (ad_len ?d) (cb_values c) (cb_validity c) (fill (read_data ?d)) \<and>
    length (cb_values c) = ad_len ?d * row_bytes (ad_type ?d) \<and>
    cb_child_len c = (case ad_type ?d of FixedSizeList f n \<Rightarrow> ad_len ?d * nat n | _ \<Rightarrow> 0)" ..
  then show ?thesis unfolding d(2) len to_data_type extract_array_def [symmetric] by (elim conjE) (rule that)
qed

end

text \<open>
  C35: A column survives the trip through bytes: for every layout the Arrow array may have (slices that
  start anywhere, bitmaps at any bit offset), extracting the values and the validity and rebuilding
  gives the array with every element of its lists valid.  This is the array itself exactly when no
  element inside a list is \<open>NULL\<close>: the validity of list elements does not travel.
\<close>

theorem column_roundtrip:
  assumes "arrow_layout L" and "array_ok a" and "packable (arr_type a)"
    and "length (cells a) * row_bytes (arr_type a) < 2 ^ 63"
  shows "\<exists>c. extract_array L a = Inr c \<and> rebuild L c = Inr (fill a) \<and> (fill a = a \<longleftrightarrow> column_valid a)"
proof -
  obtain c where c: "extract_array L a = Inr c" "cb_type c = arr_type a" "cb_len c = length (cells a)"
      "packs (arr_type a) (length (cells a)) (cb_values c) (cb_validity c) (fill a)"
      "length (cb_values c) = length (cells a) * row_bytes (arr_type a)"
      "cb_child_len c = (case arr_type a of FixedSizeList f n \<Rightarrow> length (cells a) * nat n | _ \<Rightarrow> 0)"
    by (rule arrow_layout.extract_packs [OF assms])
  then have "rebuild L c = Inr (fill a)"
    using arrow_layout.rebuild_packs [OF assms(1) c(4,6)] assms(4) by (cases c) simp
  then show ?thesis using c(1) fill_valid by blast
qed

definition sample_list :: array where
  "sample_list = \<lparr>arr_type = FixedSizeList (Field ''item'' Float32 True) 2, cells = [Some (CVec [(True, 7), (False, 9)]), None]\<rparr>"

theorem column_roundtrip_witness:
  "\<exists>c. extract_array ref_layout sample_list = Inr c \<and>
    rebuild ref_layout c = Inr (sample_list\<lparr>cells := [Some (CVec [(True, 7), (True, 9)]), None]\<rparr>)"
  using column_roundtrip [OF lref.arrow_layout_axioms, of sample_list]
  by (auto simp: sample_list_def array_ok_def fill_def)

end
