(* ===== verification/Spec2Isabelle.thy ===== *)
theory Spec2Isabelle
  imports Operator_Accounting Spill_Correct Node_Execution Device_Columns
begin

text \<open>OxideLake.\<close>

end
